theory Spec2Isabelle
  imports Complex_Main "HOL-Library.AList" "HOL-Library.Sublist"
begin

section \<open>Category suggestion (\<open>categorize_expense\<close>)\<close>

text \<open>
  Python strings are modelled as HOL strings (byte lists). \<open>str.lower\<close> is modelled on the
  ASCII range: the letters \<open>A\<close> to \<open>Z\<close> (codes 65 to 90) move to \<open>a\<close> to \<open>z\<close>, every other
  byte is left as it is.
\<close>

definition lower_char :: "char \<Rightarrow> char" where
  "lower_char c =
     (let n = (of_char c :: nat) in if 65 \<le> n \<and> n \<le> 90 then char_of (n + 32) else c)"

definition lower :: "string \<Rightarrow> string" where
  "lower s = map lower_char s"

text \<open>
  The inner loop of \<open>categorize_expense\<close>: \<open>for keyword in keywords: if keyword.lower() in
  description: return category\<close>. The result says whether the loop returned. Python's
  \<open>in\<close> on two strings is the contiguous-substring test, \<^const>\<open>sublist\<close>.
\<close>

fun match_keywords :: "string \<Rightarrow> string list \<Rightarrow> bool" where
  "match_keywords description [] = False"
| "match_keywords description (keyword # keywords) =
     (if sublist (lower keyword) description then True
      else match_keywords description keywords)"

text \<open>
  The outer loop over \<open>categories.items()\<close>; a dict iterates in insertion order, so the
  mapping is an association list. Falling out of the loop returns \<open>"Other"\<close>.
\<close>

fun categorize_loop :: "string \<Rightarrow> (string \<times> string list) list \<Rightarrow> string" where
  "categorize_loop description [] = ''Other''"
| "categorize_loop description ((category, keywords) # rest) =
     (if match_keywords description keywords then category
      else categorize_loop description rest)"

definition categorize_expense :: "string \<Rightarrow> (string \<times> string list) list \<Rightarrow> string" where
  "categorize_expense description categories =
     categorize_loop (lower description) categories"

text \<open>
  The suggestion as the specification words it: the first category of the mapping having
  some keyword that occurs, as stored, as a substring of the lowercased description.
\<close>

definition suggest_spec :: "string \<Rightarrow> (string \<times> string list) list \<Rightarrow> string" where
  "suggest_spec description rules =
     (case List.find (\<lambda>(category, keywords).
              list_ex (\<lambda>keyword. sublist keyword (lower description)) keywords) rules of
        None \<Rightarrow> ''Other''
      | Some (category, keywords) \<Rightarrow> category)"

definition lower_keywords :: "(string \<times> string list) list \<Rightarrow> (string \<times> string list) list" where
  "lower_keywords rules = map (\<lambda>(category, keywords). (category, map lower keywords)) rules"

text \<open>A rules mapping of the data model: every keyword is stored in lowercase.\<close>

definition lowercase_rules :: "(string \<times> string list) list \<Rightarrow> bool" where
  "lowercase_rules rules =
     list_all (\<lambda>(category, keywords). list_all (\<lambda>keyword. lower keyword = keyword) keywords)
       rules"

section \<open>JSON values, exceptions and the file system\<close>

text \<open>
  The value \<open>json.load\<close> returns. A JSON object is a Python dict, which keeps insertion
  order: an association list. Python floats are idealised as reals (rounding, infinities
  and NaN are outside the model), and JSON integers and floats are one constructor.
\<close>

datatype json =
    JNull
  | JBool bool
  | JNum real
  | JStr string
  | JArr "json list"
  | JObj "(string \<times> json) list"

text \<open>The exceptions the modelled code can meet; all of them are subclasses of \<open>Exception\<close>.\<close>

datatype exn =
    FileNotFoundError
  | JSONDecodeError
  | OSError
  | TypeError
  | AttributeError
  | KeyError
  | ValueError
  | UnboundLocalError
  | ParserError

text \<open>
  A pandas cell and a DataFrame: the columns in order, each with its name and its values.
\<close>

datatype cell = CNone | CNum real | CStr string | CDate string | CNaT

type_synonym frame = "(string \<times> cell list) list"

text \<open>
  What a file holds, seen through the two parsers the program uses: a JSON document
  (what \<open>json.load\<close> returns for it), a CSV table (what \<open>pandas.read_csv\<close> returns for
  it), or bytes neither parser accepts (an empty or a partially written file among them).
\<close>

datatype fcontent = Json json | Csv frame | Garbled

type_synonym path = string

datatype logentry =
    DirectoryError
  | ReadError path
  | WriteError path
  | CreateUserError string
  | BalanceReadError string
  | BalanceUpdateError string
  | LoadDataError string

text \<open>
  The world the program runs in: the files on disk, the diagnostic log
  (\<open>logging.error\<close>), and a schedule of input/output faults. Every operation that touches
  the disk takes the next entry of the schedule and raises when it is \<open>True\<close>; an empty
  schedule means that nothing fails any more.
\<close>

record world =
  files :: "path \<Rightarrow> fcontent option"
  log :: "logentry list"
  faults :: "bool list"

type_synonym 'a io = "world \<Rightarrow> (exn + 'a) \<times> world"

definition io_return :: "'a \<Rightarrow> 'a io" where
  "io_return x w = (Inr x, w)"

definition io_raise :: "exn \<Rightarrow> 'a io" where
  "io_raise e w = (Inl e, w)"

definition io_lift :: "exn + 'a \<Rightarrow> 'a io" where
  "io_lift r w = (r, w)"

definition io_bind :: "'a io \<Rightarrow> ('a \<Rightarrow> 'b io) \<Rightarrow> 'b io" where
  "io_bind m f w = (case m w of (Inl e, w') \<Rightarrow> (Inl e, w') | (Inr x, w') \<Rightarrow> f x w')"

text \<open>\<open>try: m except Exception as e: handler e\<close>\<close>

definition io_try :: "'a io \<Rightarrow> (exn \<Rightarrow> 'a io) \<Rightarrow> 'a io" where
  "io_try m handler w = (case m w of (Inl e, w') \<Rightarrow> handler e w' | (Inr x, w') \<Rightarrow> (Inr x, w'))"

definition io_log :: "logentry \<Rightarrow> unit io" where
  "io_log entry w = (Inr (), w\<lparr>log := log w @ [entry]\<rparr>)"

definition io_step :: "exn \<Rightarrow> unit io" where
  "io_step e w =
     (case faults w of
        [] \<Rightarrow> (Inr (), w)
      | b # bs \<Rightarrow> (if b then Inl e else Inr (), w\<lparr>faults := bs\<rparr>))"

subsection \<open>The operating-system and library primitives\<close>

definition os_path_exists :: "path \<Rightarrow> bool io" where
  "os_path_exists p w = (Inr (files w p \<noteq> None), w)"

definition os_makedirs :: "unit io" where
  "os_makedirs = io_step OSError"

definition os_remove :: "path \<Rightarrow> unit io" where
  "os_remove p w =
     (if files w p = None then (Inl FileNotFoundError, w)
      else io_bind (io_step OSError) (\<lambda>_ w'. (Inr (), w'\<lparr>files := (files w')(p := None)\<rparr>)) w)"

definition os_rename :: "path \<Rightarrow> path \<Rightarrow> unit io" where
  "os_rename src dst w =
     (case files w src of
        None \<Rightarrow> (Inl FileNotFoundError, w)
      | Some c \<Rightarrow>
          io_bind (io_step OSError)
            (\<lambda>_ w'. (Inr (), w'\<lparr>files := (files w')(src := None, dst \<mapsto> c)\<rparr>)) w)"

text \<open>\<open>open(p, 'w')\<close> creates or truncates the file: it is empty until something is written.\<close>

definition open_w :: "path \<Rightarrow> unit io" where
  "open_w p = io_bind (io_step OSError)
     (\<lambda>_ w. (Inr (), w\<lparr>files := (files w)(p \<mapsto> Garbled)\<rparr>))"

text \<open>
  \<open>json.dump(data, f)\<close> into the file just opened: a fault leaves the part written so
  far, which no parser accepts.
\<close>

definition json_dump :: "path \<Rightarrow> json \<Rightarrow> unit io" where
  "json_dump p data w =
     (case io_step OSError w of
        (Inl e, w') \<Rightarrow> (Inl e, w'\<lparr>files := (files w')(p \<mapsto> Garbled)\<rparr>)
      | (Inr _, w') \<Rightarrow> (Inr (), w'\<lparr>files := (files w')(p \<mapsto> Json data)\<rparr>))"

text \<open>\<open>with open(p, 'r') as f: json.load(f)\<close>\<close>

definition json_load :: "path \<Rightarrow> json io" where
  "json_load p w =
     (case files w p of
        None \<Rightarrow> (Inl FileNotFoundError, w)
      | Some c \<Rightarrow>
          io_bind (io_step OSError)
            (\<lambda>_. case c of Json j \<Rightarrow> io_return j | _ \<Rightarrow> io_raise JSONDecodeError) w)"

text \<open>\<open>df.to_csv(p, index=False)\<close>\<close>

definition to_csv :: "path \<Rightarrow> frame \<Rightarrow> unit io" where
  "to_csv p df = io_bind (open_w p) (\<lambda>_ w.
     (case io_step OSError w of
        (Inl e, w') \<Rightarrow> (Inl e, w')
      | (Inr _, w') \<Rightarrow> (Inr (), w'\<lparr>files := (files w')(p \<mapsto> Csv df)\<rparr>)))"

text \<open>\<open>pd.read_csv(p)\<close>\<close>

definition read_csv :: "path \<Rightarrow> frame io" where
  "read_csv p w =
     (case files w p of
        None \<Rightarrow> (Inl FileNotFoundError, w)
      | Some c \<Rightarrow>
          io_bind (io_step OSError)
            (\<lambda>_. case c of Csv df \<Rightarrow> io_return df | _ \<Rightarrow> io_raise ParserError) w)"

subsection \<open>Python operations on JSON values\<close>

text \<open>\<open>k in x\<close> for a string \<open>k\<close>.\<close>

fun py_in :: "string \<Rightarrow> json \<Rightarrow> exn + bool" where
  "py_in k (JObj kvs) = Inr (map_of kvs k \<noteq> None)"
| "py_in k (JStr s) = Inr (sublist k s)"
| "py_in k (JArr xs) = Inr (JStr k \<in> set xs)"
| "py_in k _ = Inl TypeError"

text \<open>\<open>x[k]\<close> for a string \<open>k\<close>.\<close>

fun py_getitem :: "json \<Rightarrow> string \<Rightarrow> exn + json" where
  "py_getitem (JObj kvs) k = (case map_of kvs k of None \<Rightarrow> Inl KeyError | Some v \<Rightarrow> Inr v)"
| "py_getitem _ k = Inl TypeError"

text \<open>\<open>x[k] = v\<close> for a string \<open>k\<close>: a dict keeps the position of a key it has already.\<close>

fun py_setitem :: "json \<Rightarrow> string \<Rightarrow> json \<Rightarrow> exn + json" where
  "py_setitem (JObj kvs) k v = Inr (JObj (AList.update k v kvs))"
| "py_setitem _ k v = Inl TypeError"

text \<open>\<open>x.items()\<close>\<close>

fun py_items :: "json \<Rightarrow> exn + (string \<times> json) list" where
  "py_items (JObj kvs) = Inr kvs"
| "py_items _ = Inl AttributeError"

text \<open>\<open>x.get(k, d)\<close>\<close>

fun py_get :: "json \<Rightarrow> string \<Rightarrow> json \<Rightarrow> exn + json" where
  "py_get (JObj kvs) k d = (case map_of kvs k of None \<Rightarrow> Inr d | Some v \<Rightarrow> Inr v)"
| "py_get _ k d = Inl AttributeError"

text \<open>
  \<open>float(x)\<close>. The conversion of a string is a parameter, \<open>str_to_float\<close>, with \<open>None\<close>
  where Python raises \<open>ValueError\<close>.
\<close>

fun py_float :: "(string \<Rightarrow> real option) \<Rightarrow> json \<Rightarrow> exn + real" where
  "py_float str_to_float (JNum r) = Inr r"
| "py_float str_to_float (JBool b) = Inr (if b then 1 else 0)"
| "py_float str_to_float (JStr s) =
     (case str_to_float s of None \<Rightarrow> Inl ValueError | Some r \<Rightarrow> Inr r)"
| "py_float str_to_float _ = Inl TypeError"

text \<open>\<open>os.path.join('data', USERS_FILE)\<close>\<close>

definition users_file :: path where
  "users_file = ''data/users.json''"

text \<open>
  \<open>os.path.join('data', 'users', name)\<close> on POSIX: an absolute last component replaces
  what precedes it. A component that is not a string raises \<open>TypeError\<close>.
\<close>

definition users_path :: "string \<Rightarrow> path" where
  "users_path name =
     (case name of
        c # cs \<Rightarrow> (if c = CHR ''/'' then name else ''data/users/'' @ name)
      | [] \<Rightarrow> ''data/users/'')"

fun join_users :: "json \<Rightarrow> exn + path" where
  "join_users (JStr name) = Inr (users_path name)"
| "join_users _ = Inl TypeError"

section \<open>File handling\<close>

definition ensure_directory_exists :: "bool io" where
  "ensure_directory_exists =
     io_try
       (io_bind os_makedirs (\<lambda>_.
        io_bind (os_path_exists users_file) (\<lambda>present.
        io_bind (if \<not> present
                 then io_bind (open_w users_file) (\<lambda>_. json_dump users_file (JObj []))
                 else io_return ()) (\<lambda>_.
        io_return True))))
       (\<lambda>e. io_bind (io_log DirectoryError) (\<lambda>_. io_return False))"

definition safe_json_read :: "path \<Rightarrow> json \<Rightarrow> json io" where
  "safe_json_read filepath dflt =
     io_try (json_load filepath)
       (\<lambda>e. if e = FileNotFoundError \<or> e = JSONDecodeError then io_return dflt
             else io_bind (io_log (ReadError filepath)) (\<lambda>_. io_return dflt))"

definition safe_json_write :: "path \<Rightarrow> json \<Rightarrow> bool io" where
  "safe_json_write filepath data =
     (let temp_file = filepath @ ''.tmp'' in
      io_try
        (io_bind (open_w temp_file) (\<lambda>_.
         io_bind (json_dump temp_file data) (\<lambda>_.
         io_bind (os_path_exists filepath) (\<lambda>present.
         io_bind (if present then os_remove filepath else io_return ()) (\<lambda>_.
         io_bind (os_rename temp_file filepath) (\<lambda>_.
         io_return True))))))
        (\<lambda>e. io_bind (io_log (WriteError filepath)) (\<lambda>_.
              io_bind (os_path_exists temp_file) (\<lambda>present.
              io_bind (if present then os_remove temp_file else io_return ()) (\<lambda>_.
              io_return False)))))"

section \<open>User management\<close>

definition balance_name :: "string \<Rightarrow> string" where
  "balance_name username = ''user_'' @ username @ ''_balance.json''"

definition data_name :: "string \<Rightarrow> string" where
  "data_name username = ''user_'' @ username @ ''_data.csv''"

definition categories_name :: "string \<Rightarrow> string" where
  "categories_name username = ''user_'' @ username @ ''_categories.json''"

definition zero_balance :: json where
  "zero_balance = JObj [(''balance'', JNum 0)]"

text \<open>
  The loop of \<open>load_users\<close> over \<open>users.items()\<close>. It changes the value of the entry it
  visits and no key, so the loop returns the entries as it leaves them, in order.
\<close>

fun heal_users :: "(string \<times> json) list \<Rightarrow> (string \<times> json) list io" where
  "heal_users [] = io_return []"
| "heal_users ((username, user_data) # rest) =
     io_bind (io_lift (py_in ''balance_file'' user_data)) (\<lambda>present.
     io_bind
       (if \<not> present then
          io_bind (io_lift (py_setitem user_data ''balance_file'' (JStr (balance_name username))))
            (\<lambda>user_data'.
          let balance_file = users_path (balance_name username) in
          io_bind (os_path_exists balance_file) (\<lambda>on_disk.
          io_bind (if \<not> on_disk
                   then io_bind (safe_json_write balance_file zero_balance) (\<lambda>_. io_return ())
                   else io_return ()) (\<lambda>_.
          io_return user_data')))
        else io_return user_data) (\<lambda>user_data'.
     io_bind (heal_users rest) (\<lambda>rest'.
     io_return ((username, user_data') # rest'))))"

definition load_users :: "json io" where
  "load_users =
     io_bind ensure_directory_exists (\<lambda>_.
     io_bind (safe_json_read users_file (JObj [])) (\<lambda>users.
     io_bind (io_lift (py_items users)) (\<lambda>items.
     io_bind (heal_users items) (\<lambda>items'.
     io_bind (safe_json_write users_file (JObj items')) (\<lambda>_.
     io_return (JObj items'))))))"

definition empty_frame :: frame where
  "empty_frame = [(''Date'', []), (''Description'', []), (''Category'', []), (''Amount'', [])]"

definition default_categories :: json where
  "default_categories = JObj
     [(''Food'', JArr [JStr ''grocery'', JStr ''restaurant'', JStr ''lunch'']),
      (''Transport'', JArr [JStr ''uber'', JStr ''taxi'', JStr ''gas'']),
      (''Entertainment'', JArr [JStr ''movie'', JStr ''game'', JStr ''concert'']),
      (''Bills'', JArr [JStr ''electric'', JStr ''water'', JStr ''internet''])]"

text \<open>
  \<open>hash_password\<close> is SHA-256 in hexadecimal; the digest is a parameter, \<open>sha256_hex\<close>.
  The results of the three \<open>safe_json_write\<close> calls are dropped, as in the source.
\<close>

definition save_user :: "(string \<Rightarrow> string) \<Rightarrow> string \<Rightarrow> string \<Rightarrow> bool io" where
  "save_user sha256_hex username password =
     io_bind ensure_directory_exists (\<lambda>_.
     io_bind load_users (\<lambda>users.
     let user_data = JObj
           [(''password_hash'', JStr (sha256_hex password)),
            (''data_file'', JStr (data_name username)),
            (''categories_file'', JStr (categories_name username)),
            (''balance_file'', JStr (balance_name username))]
     in
     io_try
       (io_bind os_makedirs (\<lambda>_.
        io_bind (to_csv (users_path (data_name username)) empty_frame) (\<lambda>_.
        io_bind (safe_json_write (users_path (categories_name username)) default_categories) (\<lambda>_.
        io_bind (safe_json_write (users_path (balance_name username)) zero_balance) (\<lambda>_.
        io_bind (io_lift (py_setitem users username user_data)) (\<lambda>users'.
        io_bind (safe_json_write users_file users') (\<lambda>_.
        io_return True)))))))
       (\<lambda>e. io_bind (io_log (CreateUserError username)) (\<lambda>_. io_return False))))"

text \<open>
  The "Create Account" branch of \<open>main\<close>: the three checks made before \<open>save_user\<close> is
  called, and the message shown.
\<close>

datatype signup_result =
    FieldsRequired
  | PasswordsDontMatch
  | UsernameExists
  | AccountCreated
  | CreateFailed

definition main_create_account ::
    "(string \<Rightarrow> string) \<Rightarrow> string \<Rightarrow> string \<Rightarrow> string \<Rightarrow> signup_result io" where
  "main_create_account sha256_hex new_user new_pass confirm_pass =
     (if new_user = [] \<or> new_pass = [] then io_return FieldsRequired
      else if new_pass \<noteq> confirm_pass then io_return PasswordsDontMatch
      else
        io_bind load_users (\<lambda>users.
        io_bind (io_lift (py_in new_user users)) (\<lambda>taken.
        if taken then io_return UsernameExists
        else
          io_bind (save_user sha256_hex new_user new_pass) (\<lambda>created.
          io_return (if created then AccountCreated else CreateFailed)))))"

section \<open>Balance functions\<close>

definition get_user_balance :: "(string \<Rightarrow> real option) \<Rightarrow> string \<Rightarrow> real io" where
  "get_user_balance str_to_float username =
     io_bind load_users (\<lambda>users.
     io_bind (io_lift (py_in username users)) (\<lambda>registered.
     if \<not> registered then io_return 0
     else
       io_bind (io_lift (py_getitem users username)) (\<lambda>user_files.
       io_bind (io_lift (py_getitem user_files ''balance_file'')) (\<lambda>name.
       io_bind (io_lift (join_users name)) (\<lambda>balance_file.
       io_try
         (io_bind (os_path_exists balance_file) (\<lambda>on_disk.
          if on_disk then
            io_bind (json_load balance_file) (\<lambda>doc.
            io_bind (io_lift (py_get doc ''balance'' (JNum 0))) (\<lambda>v.
            io_lift (py_float str_to_float v)))
          else io_return 0))
         (\<lambda>e. io_bind (io_log (BalanceReadError username)) (\<lambda>_. io_return 0)))))))"

text \<open>
  \<open>temp_file\<close> is bound after the call of \<open>get_user_balance\<close>: when that call raises, the
  handler's \<open>os.path.exists(temp_file)\<close> raises \<open>UnboundLocalError\<close>, which leaves the
  function. The amount comes from a numeric input, so \<open>float(amount)\<close> is the amount.
\<close>

definition update_user_balance :: "(string \<Rightarrow> real option) \<Rightarrow> string \<Rightarrow> real \<Rightarrow> bool io" where
  "update_user_balance str_to_float username amount =
     io_bind load_users (\<lambda>users.
     io_bind (io_lift (py_in username users)) (\<lambda>registered.
     if \<not> registered then io_return False
     else
       io_bind (io_lift (py_getitem users username)) (\<lambda>user_files.
       io_bind (io_lift (py_getitem user_files ''balance_file'')) (\<lambda>name.
       io_bind (io_lift (join_users name)) (\<lambda>balance_file.
       io_bind
         (io_try (get_user_balance str_to_float username)
            (\<lambda>e. io_bind (io_log (BalanceUpdateError username)) (\<lambda>_.
                  io_raise UnboundLocalError))) (\<lambda>current_balance.
       let new_balance = current_balance + amount;
           temp_file = balance_file @ ''.tmp''
       in
       io_try
         (io_bind (open_w temp_file) (\<lambda>_.
          io_bind (json_dump temp_file (JObj [(''balance'', JNum new_balance)])) (\<lambda>_.
          io_bind (os_path_exists balance_file) (\<lambda>on_disk.
          io_bind (if on_disk then os_remove balance_file else io_return ()) (\<lambda>_.
          io_bind (os_rename temp_file balance_file) (\<lambda>_.
          io_return True))))))
         (\<lambda>e. io_bind (io_log (BalanceUpdateError username)) (\<lambda>_.
               io_bind (os_path_exists temp_file) (\<lambda>on_disk.
               io_bind (if on_disk then os_remove temp_file else io_return ()) (\<lambda>_.
               io_return False))))))))))"

section \<open>Data functions\<close>

definition nrows :: "frame \<Rightarrow> nat" where
  "nrows df = (case df of [] \<Rightarrow> 0 | (name, column) # rest \<Rightarrow> length column)"

text \<open>
  \<open>for col in required_columns: if col not in df.columns: df[col] = None if col != 'Amount'
  else 0.0\<close>: a new column goes after the columns the frame has.
\<close>

fun add_missing_columns :: "string list \<Rightarrow> frame \<Rightarrow> frame" where
  "add_missing_columns [] df = df"
| "add_missing_columns (col # cols) df =
     add_missing_columns cols
       (if map_of df col = None
        then df @ [(col, replicate (nrows df) (if col \<noteq> ''Amount'' then CNone else CNum 0))]
        else df)"

definition required_columns :: "string list" where
  "required_columns = [''Date'', ''Description'', ''Category'', ''Amount'']"

text \<open>
  \<open>df['Date'] = pd.to_datetime(df['Date']).dt.date\<close>. The conversion of a column is a
  parameter, \<open>to_dates\<close>, with \<open>None\<close> where pandas raises.
\<close>

definition parse_dates :: "(cell list \<Rightarrow> cell list option) \<Rightarrow> frame \<Rightarrow> exn + frame" where
  "parse_dates to_dates df =
     (case map_of df ''Date'' of
        None \<Rightarrow> Inr df
      | Some column \<Rightarrow>
          (case to_dates column of
             None \<Rightarrow> Inl ValueError
           | Some dates \<Rightarrow> Inr (AList.update ''Date'' dates df)))"

text \<open>The body of \<open>load_user_data\<close>: what runs when the decorator finds no cached value.\<close>

definition load_user_data_body :: "(cell list \<Rightarrow> cell list option) \<Rightarrow> string \<Rightarrow> frame io" where
  "load_user_data_body to_dates username =
     io_bind load_users (\<lambda>users.
     io_bind (io_lift (py_in username users)) (\<lambda>registered.
     if \<not> registered then io_return empty_frame
     else
       io_bind (io_lift (py_getitem users username)) (\<lambda>user_files.
       io_bind (io_lift (py_getitem user_files ''data_file'')) (\<lambda>name.
       io_bind (io_lift (join_users name)) (\<lambda>data_file.
       io_try
         (io_bind (read_csv data_file) (\<lambda>df.
          io_lift (parse_dates to_dates (add_missing_columns required_columns df))))
         (\<lambda>e. io_bind (io_log (LoadDataError username)) (\<lambda>_. io_return empty_frame)))))))"

text \<open>
  The cache of the decorator \<open>@st.cache_data(ttl=3600)\<close>: for each argument, the frame
  returned and the time, in seconds, at which it was stored. An entry is used while it is
  less than 3600 seconds old. \<open>st.cache_data.clear()\<close> leaves \<open>empty_cache\<close>.
\<close>

type_synonym cache = "string \<Rightarrow> (frame \<times> nat) option"

definition empty_cache :: cache where
  "empty_cache username = None"

definition cached_frame :: "cache \<Rightarrow> nat \<Rightarrow> string \<Rightarrow> frame option" where
  "cached_frame cache now username =
     (case cache username of
        Some (df, stored_at) \<Rightarrow> if now < stored_at + 3600 then Some df else None
      | None \<Rightarrow> None)"

text \<open>
  \<open>load_user_data\<close> as the application calls it, at the time \<open>now\<close>: a cached frame is
  returned without running the body; otherwise the body runs and the frame it returns is
  stored, while an exception is passed on and nothing is stored.
\<close>

definition load_user_data ::
    "(cell list \<Rightarrow> cell list option) \<Rightarrow> nat \<Rightarrow> string \<Rightarrow> cache \<Rightarrow> world
       \<Rightarrow> ((exn + frame) \<times> cache) \<times> world" where
  "load_user_data to_dates now username cache w =
     (case cached_frame cache now username of
        Some df \<Rightarrow> ((Inr df, cache), w)
      | None \<Rightarrow>
          (case load_user_data_body to_dates username w of
             (Inr df, w') \<Rightarrow> ((Inr df, cache(username \<mapsto> (df, now))), w')
           | (Inl e, w') \<Rightarrow> ((Inl e, cache), w')))"

section \<open>Notions used to state the properties\<close>

text \<open>The next disk operation does not fail.\<close>

definition next_ok :: "world \<Rightarrow> bool" where
  "next_ok w = (case faults w of [] \<Rightarrow> True | b # bs \<Rightarrow> \<not> b)"

text \<open>What \<open>safe_json_read\<close> with default \<open>{}\<close> finds in the registry file.\<close>

definition registry_of :: "world \<Rightarrow> json" where
  "registry_of w = (case files w users_file of Some (Json j) \<Rightarrow> j | _ \<Rightarrow> JObj [])"

fun is_object :: "json \<Rightarrow> bool" where
  "is_object (JObj kvs) = True"
| "is_object _ = False"

text \<open>The text stored in a field of an account record.\<close>

fun field :: "string \<Rightarrow> json \<Rightarrow> string option" where
  "field k (JObj kvs) = (case map_of kvs k of Some (JStr s) \<Rightarrow> Some s | _ \<Rightarrow> None)"
| "field k _ = None"

text \<open>An account record that names its balance file.\<close>

definition account_ok :: "json \<Rightarrow> bool" where
  "account_ok v = (is_object v \<and> field ''balance_file'' v \<noteq> None)"

text \<open>The registry entry as the loop of \<open>load_users\<close> leaves it.\<close>

fun heal_record :: "string \<times> json \<Rightarrow> string \<times> json" where
  "heal_record (username, JObj kvs) =
     (username,
      if map_of kvs ''balance_file'' = None
      then JObj (AList.update ''balance_file'' (JStr (balance_name username)) kvs)
      else JObj kvs)"
| "heal_record (username, v) = (username, v)"

text \<open>The files as that loop leaves them when no operation fails.\<close>

fun heal_files :: "(string \<times> json) list \<Rightarrow> (path \<Rightarrow> fcontent option) \<Rightarrow> path \<Rightarrow> fcontent option" where
  "heal_files [] f = f"
| "heal_files ((username, v) # rest) f =
     heal_files rest
       (if py_in ''balance_file'' v = Inr False \<and> f (users_path (balance_name username)) = None
        then f(users_path (balance_name username) @ ''.tmp'' := None,
               users_path (balance_name username) \<mapsto> Json zero_balance)
        else f)"

text \<open>
  What the \<open>try\<close> block of \<open>get_user_balance\<close> computes from the content of the balance
  file when the read itself does not fail.
\<close>

definition read_balance :: "(string \<Rightarrow> real option) \<Rightarrow> fcontent option \<Rightarrow> exn + real" where
  "read_balance str_to_float content =
     (case content of
        None \<Rightarrow> Inr 0
      | Some (Json doc) \<Rightarrow>
          (case py_get doc ''balance'' (JNum 0) of
             Inl e \<Rightarrow> Inl e
           | Inr v \<Rightarrow> py_float str_to_float v)
      | Some _ \<Rightarrow> Inl JSONDecodeError)"

text \<open>The world after a load that finds the registry \<open>us\<close> with nothing to complete.\<close>

definition loaded :: "(string \<times> json) list \<Rightarrow> world \<Rightarrow> world" where
  "loaded us w =
     w\<lparr>files := (files w)(users_file @ ''.tmp'' := None, users_file \<mapsto> Json (JObj us))\<rparr>"

text \<open>The password hash the registry file holds for a username.\<close>

definition stored_hash :: "world \<Rightarrow> string \<Rightarrow> json option" where
  "stored_hash w username =
     (case registry_of w of
        JObj us \<Rightarrow>
          (case map_of us username of
             Some (JObj kvs) \<Rightarrow> map_of kvs ''password_hash''
           | _ \<Rightarrow> None)
      | _ \<Rightarrow> None)"

text \<open>
  The value a column added by \<open>load_user_data\<close> is filled with, one step of its loop over
  the required columns, and the column of a frame, or a column of a given value when the
  frame has none of that name.
\<close>

definition missing_value :: "string \<Rightarrow> cell" where
  "missing_value col = (if col \<noteq> ''Amount'' then CNone else CNum 0)"

definition add_column :: "frame \<Rightarrow> string \<Rightarrow> frame" where
  "add_column df col =
     (if map_of df col = None then df @ [(col, replicate (nrows df) (missing_value col))] else df)"

definition column_or :: "cell \<Rightarrow> string \<Rightarrow> frame \<Rightarrow> cell list" where
  "column_or v col df =
     (case map_of df col of Some column \<Rightarrow> column | None \<Rightarrow> replicate (nrows df) v)"

section \<open>Example worlds\<close>

text \<open>A world with the given files, an empty log and the given fault schedule.\<close>

definition disk :: "(path \<times> fcontent) list \<Rightarrow> bool list \<Rightarrow> world" where
  "disk fs schedule = \<lparr>files = map_of fs, log = [], faults = schedule\<rparr>"

text \<open>An account record as \<open>save_user\<close> writes it, and a registry that holds it alone.\<close>

definition bob_record :: json where
  "bob_record = JObj
     [(''password_hash'', JStr ''5e88''),
      (''data_file'', JStr ''user_bob_data.csv''),
      (''categories_file'', JStr ''user_bob_categories.json''),
      (''balance_file'', JStr ''user_bob_balance.json'')]"

definition bob_only :: world where
  "bob_only = disk [(''data/users.json'', Json (JObj [(''bob'', bob_record)]))] []"

text \<open>A registry whose one record has no balance-file reference yet.\<close>

definition amy_record :: json where
  "amy_record = JObj [(''password_hash'', JStr ''2c62'')]"

definition amy_only :: world where
  "amy_only = disk [(''data/users.json'', Json (JObj [(''amy'', amy_record)]))] []"

text \<open>The same registry with a balance file holding 10, and a string conversion that rejects every string.\<close>

definition bob_funded :: world where
  "bob_funded = disk
     [(''data/users.json'', Json (JObj [(''bob'', bob_record)])),
      (''data/users/user_bob_balance.json'', Json (JObj [(''balance'', JNum 10)]))] []"

definition reject_strings :: "string \<Rightarrow> real option" where
  "reject_strings s = None"

text \<open>The same registry with a balance file that does not parse.\<close>

definition bob_garbled :: world where
  "bob_garbled = disk
     [(''data/users.json'', Json (JObj [(''bob'', bob_record)])),
      (''data/users/user_bob_balance.json'', Garbled)] []"

text \<open>A stand-in for the digest.\<close>

definition toy_hash :: "string \<Rightarrow> string" where
  "toy_hash password = ''hash:'' @ password"

text \<open>
  A date conversion that accepts every string, and the registry with a journal of one row
  that has neither a Category nor an Amount column.
\<close>

definition toy_dates :: "cell list \<Rightarrow> cell list option" where
  "toy_dates column = Some (map (\<lambda>c. case c of CStr s \<Rightarrow> CDate s | _ \<Rightarrow> CNaT) column)"

definition bob_journal :: world where
  "bob_journal = disk
     [(''data/users.json'', Json (JObj [(''bob'', bob_record)])),
      (''data/users/user_bob_data.csv'',
         Csv [(''Date'', [CStr ''2024-01-05'']), (''Description'', [CStr ''uber ride''])])] []"

text \<open>
  The same registry when the journal file holds the empty table that \<open>save_user\<close> writes
  at sign-up.
\<close>

definition bob_journal_later :: world where
  "bob_journal_later = disk
     [(''data/users.json'', Json (JObj [(''bob'', bob_record)])),
      (''data/users/user_bob_data.csv'', Csv empty_frame)] []"

section \<open>Properties of the category suggestion\<close>

lemma lower_char_idem: "lower_char (lower_char c) = lower_char c"
  by (simp add: lower_char_def Let_def)

lemma lower_idem: "lower (lower s) = lower s"
  by (simp add: lower_def lower_char_idem)

lemma match_keywords_list_ex:
  "match_keywords d ks = list_ex (\<lambda>k. sublist (lower k) d) ks"
  by (induction ks) auto

lemma match_keywords_lower: "match_keywords d (map lower ks) = match_keywords d ks"
  by (induction ks) (auto simp: lower_idem)

lemma categorize_loop_find:
  "categorize_loop d rules =
     (case List.find (\<lambda>(c, ks). list_ex (\<lambda>k. sublist (lower k) d) ks) rules of
        None \<Rightarrow> ''Other'' | Some (c, ks) \<Rightarrow> c)"
  by (induction d rules rule: categorize_loop.induct)
     (auto simp: match_keywords_list_ex)

lemma categorize_loop_lower:
  "categorize_loop d (lower_keywords rules) = categorize_loop d rules"
  by (induction d rules rule: categorize_loop.induct)
     (auto simp: lower_keywords_def match_keywords_lower)

lemma find_lower_keywords:
  "List.find (\<lambda>(c, ks). list_ex (\<lambda>k. sublist k e) ks) (lower_keywords rules) =
     map_option (\<lambda>(c, ks). (c, map lower ks))
       (List.find (\<lambda>(c, ks). list_ex (\<lambda>k. sublist (lower k) e) ks) rules)"
  by (induction rules) (auto simp: lower_keywords_def list_ex_iff)

lemmas lower_eval = lower_def lower_char_def Let_def char_of_def bit_Suc_0_iff

lemma categorize_expense_lowered:
  "categorize_expense description rules = suggest_spec description (lower_keywords rules)"
  by (auto simp: categorize_expense_def suggest_spec_def categorize_loop_find
        find_lower_keywords split: option.splits)

lemma lower_keywords_lowercase: "lowercase_rules rules \<Longrightarrow> lower_keywords rules = rules"
  by (induction rules) (auto simp: lowercase_rules_def lower_keywords_def list_all_iff map_idI)

text \<open>
  C6: for every description and every rules mapping (of the data model: keywords stored
  in lowercase), the suggestion lowercases the description and is the first category, in
  the order of the mapping, having some keyword that occurs as a substring of the
  lowercased description, and \<open>Other\<close> when no keyword of any category occurs in it.
\<close>

theorem categorize_expense_first_match:
  "lowercase_rules rules \<Longrightarrow>
     categorize_expense description rules = suggest_spec description rules"
  using categorize_expense_lowered [of description rules]
  by (simp add: lower_keywords_lowercase)

theorem categorize_expense_first_match_witness:
  "categorize_expense ''Uber ride to LUNCH''
     [(''Food'', [''grocery'', ''lunch'']), (''Transport'', [''uber'', ''lunch''])] = ''Food''
   \<and> categorize_expense ''Rent'' [(''Food'', [''grocery'', ''lunch''])] = ''Other''"
  using categorize_expense_first_match [of
      "[(''Food'', [''grocery'', ''lunch'']), (''Transport'', [''uber'', ''lunch''])]"
      "''Uber ride to LUNCH''"]
    categorize_expense_first_match [of "[(''Food'', [''grocery'', ''lunch''])]" "''Rent''"]
  by (simp add: lowercase_rules_def suggest_spec_def lower_eval sublist_code)

text \<open>
  C9: the suggestion does not depend on the letter case of the stored keywords: the
  mapping and the mapping with every keyword lowercased give the same category.
\<close>

theorem categorize_expense_keyword_case:
  "categorize_expense description (lower_keywords rules) = categorize_expense description rules"
  by (simp add: categorize_expense_def categorize_loop_lower)

section \<open>Properties of the file store\<close>

lemmas io_defs =
  io_return_def io_raise_def io_lift_def io_bind_def io_try_def io_log_def io_step_def

text \<open>
  C3: \<open>safe_json_read\<close> returns the content of a file that exists and parses (when the
  read itself does not fail), returns the default when the file does not exist or does not
  parse, and raises in no case.
\<close>

theorem safe_json_read_lenient:
  "(files w p = Some (Json j) \<and> next_ok w \<longrightarrow> fst (safe_json_read p d w) = Inr j)
   \<and> ((\<forall>j'. files w p \<noteq> Some (Json j')) \<longrightarrow> fst (safe_json_read p d w) = Inr d)
   \<and> (\<forall>e. fst (safe_json_read p d w) \<noteq> Inl e)"
  by (auto simp: safe_json_read_def json_load_def io_defs next_ok_def
           split: option.splits list.splits fcontent.splits)

theorem safe_json_read_lenient_witness:
  "fst (safe_json_read ''a.json'' JNull (disk [(''a.json'', Json (JNum 1)), (''b.json'', Garbled)] []))
     = Inr (JNum 1)
   \<and> fst (safe_json_read ''b.json'' JNull (disk [(''a.json'', Json (JNum 1)), (''b.json'', Garbled)] []))
     = Inr JNull
   \<and> fst (safe_json_read ''c.json'' JNull (disk [(''a.json'', Json (JNum 1)), (''b.json'', Garbled)] []))
     = Inr JNull"
  using safe_json_read_lenient [of "disk [(''a.json'', Json (JNum 1)), (''b.json'', Garbled)] []"
          "''a.json''" "JNum 1" JNull]
        safe_json_read_lenient [of "disk [(''a.json'', Json (JNum 1)), (''b.json'', Garbled)] []"
          "''b.json''" JNull JNull]
        safe_json_read_lenient [of "disk [(''a.json'', Json (JNum 1)), (''b.json'', Garbled)] []"
          "''c.json''" JNull JNull]
  by (simp add: disk_def next_ok_def)

lemmas write_defs =
  safe_json_write_def Let_def os_path_exists_def os_remove_def os_rename_def open_w_def
  json_dump_def

lemma safe_json_write_no_fault:
  "faults w = [] \<Longrightarrow>
     safe_json_write p d w =
       (Inr True, w\<lparr>files := (files w)(p @ ''.tmp'' := None, p \<mapsto> Json d)\<rparr>)"
  by (auto simp: write_defs io_defs fun_upd_twist split: option.splits)

lemma safe_json_write_success:
  "fst (safe_json_write p d w) = Inr True \<longrightarrow>
     files (snd (safe_json_write p d w)) p = Some (Json d)
     \<and> files (snd (safe_json_write p d w)) (p @ ''.tmp'') = None"
  by (auto simp: write_defs io_defs split: option.splits list.splits if_splits)

lemma safe_json_write_target:
  "files (snd (safe_json_write p d w)) p = files w p
   \<or> files (snd (safe_json_write p d w)) p = Some (Json d)
   \<or> files (snd (safe_json_write p d w)) p = None"
  by (auto simp: write_defs io_defs split: option.splits list.splits if_splits)

lemma safe_json_write_early_failure:
  "(faults w = True # fs \<or> faults w = False # True # fs
      \<or> (faults w = False # False # True # fs \<and> files w p \<noteq> None))
     \<and> (fs = [] \<or> \<not> hd fs) \<longrightarrow>
   fst (safe_json_write p d w) = Inr False
   \<and> files (snd (safe_json_write p d w)) p = files w p
   \<and> files (snd (safe_json_write p d w)) (p @ ''.tmp'') = None"
  by (auto simp: write_defs io_defs split: option.splits list.splits if_splits)

text \<open>
  C1, as stated: a write that fails leaves the prior content of the target in place, and
  the target is never seen absent. It fails when the rename raises: the original has been
  removed by then, the handler removes the temporary file, and the call reports failure
  with no target file left.
\<close>

theorem safe_json_write_rename_failure_counterexample:
  "fst (safe_json_write ''f.json'' (JNum 2)
          (disk [(''f.json'', Json (JNum 1))] [False, False, False, True])) = Inr False
   \<and> files (snd (safe_json_write ''f.json'' (JNum 2)
          (disk [(''f.json'', Json (JNum 1))] [False, False, False, True]))) ''f.json'' = None
   \<and> files (disk [(''f.json'', Json (JNum 1))] [False, False, False, True]) ''f.json''
       = Some (Json (JNum 1))"
  by (simp add: write_defs io_defs disk_def)

text \<open>
  C1, amended: for every path and prior content, (1) a write that reports success leaves
  the data in the target and no temporary file; (2) whatever fails, the target afterwards
  holds its prior content, or the complete data, or is absent: it never holds a partial
  write, and it changes only after the serialization to the temporary file has completed;
  (3) a write that fails while the temporary file is opened or written, or while the
  original is removed, reports failure, leaves the prior content of the target unchanged
  and discards the temporary file (provided the removal of the temporary file does not
  fail itself).
\<close>

theorem safe_json_write_replace:
  "(fst (safe_json_write p d w) = Inr True \<longrightarrow>
      files (snd (safe_json_write p d w)) p = Some (Json d)
      \<and> files (snd (safe_json_write p d w)) (p @ ''.tmp'') = None)
   \<and> (files (snd (safe_json_write p d w)) p = files w p
      \<or> files (snd (safe_json_write p d w)) p = Some (Json d)
      \<or> files (snd (safe_json_write p d w)) p = None)
   \<and> ((faults w = True # fs \<or> faults w = False # True # fs
        \<or> (faults w = False # False # True # fs \<and> files w p \<noteq> None))
       \<and> (fs = [] \<or> \<not> hd fs) \<longrightarrow>
      fst (safe_json_write p d w) = Inr False
      \<and> files (snd (safe_json_write p d w)) p = files w p
      \<and> files (snd (safe_json_write p d w)) (p @ ''.tmp'') = None)"
  using safe_json_write_success [of p d w] safe_json_write_target [of p d w]
    safe_json_write_early_failure [of w fs p d]
  by blast

theorem safe_json_write_replace_witness:
  "fst (safe_json_write ''f.json'' (JNum 2) (disk [(''f.json'', Json (JNum 1))] [False, True]))
     = Inr False
   \<and> files (snd (safe_json_write ''f.json'' (JNum 2)
        (disk [(''f.json'', Json (JNum 1))] [False, True]))) ''f.json'' = Some (Json (JNum 1))
   \<and> files (snd (safe_json_write ''f.json'' (JNum 2)
        (disk [(''f.json'', Json (JNum 1))] [False, True]))) ''f.json.tmp'' = None"
  using safe_json_write_replace [of "''f.json''" "JNum 2"
      "disk [(''f.json'', Json (JNum 1))] [False, True]" "[]"]
  by (simp add: disk_def)

section \<open>The registry load when no operation fails\<close>

lemma ensure_no_fault:
  "faults w = [] \<Longrightarrow>
     ensure_directory_exists w =
       (Inr True, if files w users_file = None
                  then w\<lparr>files := (files w)(users_file \<mapsto> Json (JObj []))\<rparr> else w)"
  by (simp add: ensure_directory_exists_def os_makedirs_def os_path_exists_def open_w_def
        json_dump_def io_defs)

lemma safe_json_read_no_fault:
  "faults w = [] \<Longrightarrow>
     safe_json_read p d w = (Inr (case files w p of Some (Json j) \<Rightarrow> j | _ \<Rightarrow> d), w)"
  by (simp add: safe_json_read_def json_load_def io_defs split: option.splits fcontent.splits)

lemma heal_users_no_fault:
  "faults w = [] \<Longrightarrow> list_all (\<lambda>kv. is_object (snd kv)) us \<Longrightarrow>
     heal_users us w = (Inr (map heal_record us), w\<lparr>files := heal_files us (files w)\<rparr>)"
proof (induction us arbitrary: w)
  case Nil
  then show ?case by (simp add: io_return_def)
next
  case (Cons kv us)
  obtain k v where kv: "kv = (k, v)" by (cases kv)
  from Cons.prems kv obtain kvs where v: "v = JObj kvs" by (cases v) auto
  from Cons.prems have rest: "list_all (\<lambda>kv. is_object (snd kv)) us" by simp
  show ?case
  proof (cases "map_of kvs ''balance_file'' = None")
    case False
    then show ?thesis
      using Cons.IH [OF Cons.prems(1) rest] kv v
      by (auto simp: io_bind_def io_lift_def io_return_def)
  next
    case True
    show ?thesis
    proof (cases "files w (users_path (balance_name k)) = None")
      case False
      then show ?thesis
        using Cons.IH [OF Cons.prems(1) rest] kv v True
        by (auto simp: io_bind_def io_lift_def io_return_def os_path_exists_def Let_def)
    next
      case absent: True
      let ?w1 = "w\<lparr>files := (files w)(users_path (balance_name k) @ ''.tmp'' := None,
                     users_path (balance_name k) \<mapsto> Json zero_balance)\<rparr>"
      have f1: "faults ?w1 = []" using Cons.prems(1) by simp
      note step = Cons.IH [OF f1 rest]
      show ?thesis
        using kv v True absent Cons.prems(1)
        by (simp add: io_bind_def io_lift_def io_return_def os_path_exists_def Let_def
              safe_json_write_no_fault step)
           (rule world.equality; simp add: fun_upd_def cong: if_cong)
    qed
  qed
qed

lemma users_file_tmp_neq: "users_file @ ''.tmp'' \<noteq> users_file"
  by simp

lemma load_users_no_fault:
  assumes "faults w = []" and "registry_of w = JObj us"
    and "list_all (\<lambda>kv. is_object (snd kv)) us"
  shows "load_users w =
    (Inr (JObj (map heal_record us)),
     w\<lparr>files := (heal_files us (files w))(users_file @ ''.tmp'' := None,
          users_file \<mapsto> Json (JObj (map heal_record us)))\<rparr>)"
proof (cases "files w users_file = None")
  case True
  with assms(2) have us: "us = []" by (simp add: registry_of_def)
  let ?w1 = "w\<lparr>files := (files w)(users_file \<mapsto> Json (JObj []))\<rparr>"
  have f1: "faults ?w1 = []" using assms(1) by simp
  show ?thesis
    using True us assms(1) f1
    by (simp add: load_users_def io_bind_def io_lift_def io_return_def ensure_no_fault
          safe_json_read_no_fault safe_json_write_no_fault)
next
  case False
  then obtain c where c: "files w users_file = Some c" by auto
  have rd: "(case c of Json j \<Rightarrow> j | _ \<Rightarrow> JObj []) = JObj us"
    using assms(2) c by (simp add: registry_of_def)
  have f2: "faults (w\<lparr>files := heal_files us (files w)\<rparr>) = []" using assms(1) by simp
  show ?thesis
    using c assms(1) rd f2
    by (simp add: load_users_def io_bind_def io_lift_def io_return_def ensure_no_fault
          safe_json_read_no_fault heal_users_no_fault [OF assms(1) assms(3)]
          safe_json_write_no_fault)
qed

lemma balance_path: "users_path (balance_name k) = ''data/users/user_'' @ k @ ''_balance.json''"
  by (simp add: users_path_def balance_name_def)

lemma balance_path_not_tmp: "users_path (balance_name k) \<noteq> p @ ''.tmp''"
proof
  assume "users_path (balance_name k) = p @ ''.tmp''"
  then have "last (users_path (balance_name k)) = last (p @ ''.tmp'')" by simp
  then show False by (simp add: balance_path)
qed

lemma users_path_not_registry:
  "users_path x \<noteq> users_file" "users_path x \<noteq> users_file @ ''.tmp''"
  "users_path x @ ''.tmp'' \<noteq> users_file" "users_path x @ ''.tmp'' \<noteq> users_file @ ''.tmp''"
  by (auto simp: users_path_def users_file_def split: list.splits)

lemma heal_files_keep:
  "f q = Some c \<Longrightarrow> (\<And>p. q \<noteq> p @ ''.tmp'') \<Longrightarrow> heal_files us f q = Some c"
proof (induction us arbitrary: f)
  case Nil
  then show ?case by simp
next
  case (Cons kv us)
  obtain k v where kv: "kv = (k, v)" by (cases kv)
  show ?case
    unfolding kv heal_files.simps
    by (rule Cons.IH) (use Cons.prems in auto)
qed

lemma heal_files_created:
  "(k, v) \<in> set us \<Longrightarrow> py_in ''balance_file'' v = Inr False \<Longrightarrow>
     heal_files us f (users_path (balance_name k)) =
       (case f (users_path (balance_name k)) of
          None \<Rightarrow> Some (Json zero_balance) | Some c \<Rightarrow> Some c)"
proof (induction us arbitrary: f)
  case Nil
  then show ?case by simp
next
  case (Cons kv us)
  obtain k' v' where kv: "kv = (k', v')" by (cases kv)
  let ?q = "users_path (balance_name k)"
  let ?f = "if py_in ''balance_file'' v' = Inr False \<and> f (users_path (balance_name k')) = None
        then f(users_path (balance_name k') @ ''.tmp'' := None,
               users_path (balance_name k') \<mapsto> Json zero_balance)
        else f"
  have unfold: "heal_files (kv # us) f ?q = heal_files us ?f ?q"
    by (simp add: kv)
  show ?case
  proof (cases "f ?q")
    case (Some c)
    then have "?f ?q = Some c" using balance_path_not_tmp [of k] by auto
    then have "heal_files us ?f ?q = Some c"
      by (rule heal_files_keep) (rule balance_path_not_tmp)
    with Some unfold show ?thesis by simp
  next
    case None
    show ?thesis
    proof (cases "?f ?q")
      case (Some c)
      with None have c: "c = Json zero_balance" by (auto split: if_splits)
      from Some have "heal_files us ?f ?q = Some c"
        by (rule heal_files_keep) (rule balance_path_not_tmp)
      with None unfold c show ?thesis by simp
    next
      case still: None
      have "(k, v) \<noteq> kv"
      proof
        assume "(k, v) = kv"
        with kv have "k' = k" "v' = v" by simp_all
        with Cons.prems(2) None have "?f ?q = Some (Json zero_balance)" by simp
        with still show False by simp
      qed
      with Cons.prems(1) have "(k, v) \<in> set us" by auto
      from Cons.IH [OF this Cons.prems(2), of ?f] still None unfold
      show ?thesis by simp
    qed
  qed
qed

lemma heal_record_present:
  "is_object v \<Longrightarrow> py_in ''balance_file'' (snd (heal_record (k, v))) = Inr True"
  by (cases v) (auto simp: update_conv')

lemma heal_record_field:
  "is_object v \<Longrightarrow> py_in ''balance_file'' v = Inr False \<Longrightarrow>
     field ''balance_file'' (snd (heal_record (k, v))) = Some (balance_name k)"
  by (cases v) (auto simp: update_conv')

lemma heal_files_healed:
  "list_all (\<lambda>kv. account_ok (snd kv)) us \<Longrightarrow> heal_files us f = f"
proof (induction us arbitrary: f)
  case Nil
  then show ?case by simp
next
  case (Cons kv us)
  obtain k v where kv: "kv = (k, v)" by (cases kv)
  from Cons.prems kv have "py_in ''balance_file'' v = Inr True"
    by (cases v) (auto simp: account_ok_def split: option.splits)
  with Cons kv show ?case by simp
qed

lemma heal_record_healed:
  "list_all (\<lambda>kv. account_ok (snd kv)) us \<Longrightarrow> map heal_record us = us"
proof (induction us)
  case Nil
  then show ?case by simp
next
  case (Cons kv us)
  obtain k v where kv: "kv = (k, v)" by (cases kv)
  from Cons.prems kv have "heal_record (k, v) = (k, v)"
    by (cases v) (auto simp: account_ok_def split: option.splits)
  with Cons kv show ?case by simp
qed

lemma account_ok_object:
  "list_all (\<lambda>kv. account_ok (snd kv)) us \<Longrightarrow> list_all (\<lambda>kv. is_object (snd kv)) us"
  by (induction us) (auto simp: account_ok_def)

lemma load_users_healed:
  assumes "faults w = []" and "registry_of w = JObj us"
    and "list_all (\<lambda>kv. account_ok (snd kv)) us"
  shows "load_users w =
    (Inr (JObj us),
     w\<lparr>files := (files w)(users_file @ ''.tmp'' := None, users_file \<mapsto> Json (JObj us))\<rparr>)"
  using load_users_no_fault [OF assms(1) assms(2) account_ok_object [OF assms(3)]]
  by (simp add: heal_files_healed [OF assms(3)] heal_record_healed [OF assms(3)])

text \<open>
  C2, as stated: after a load every account of the registry has its three data files on
  disk. It fails for a record that names its three files while none of them exists: the
  load looks at no file of a record that has a balance-file reference.
\<close>

theorem load_users_files_missing_counterexample:
  "fst (load_users bob_only) = Inr (JObj [(''bob'', bob_record)])
   \<and> field ''balance_file'' bob_record = Some ''user_bob_balance.json''
   \<and> field ''data_file'' bob_record = Some ''user_bob_data.csv''
   \<and> field ''categories_file'' bob_record = Some ''user_bob_categories.json''
   \<and> files (snd (load_users bob_only)) (users_path ''user_bob_balance.json'') = None
   \<and> files (snd (load_users bob_only)) (users_path ''user_bob_data.csv'') = None
   \<and> files (snd (load_users bob_only)) (users_path ''user_bob_categories.json'') = None"
proof -
  have "load_users bob_only =
      (Inr (JObj (map heal_record [(''bob'', bob_record)])),
       bob_only\<lparr>files := (heal_files [(''bob'', bob_record)] (files bob_only))
          (users_file @ ''.tmp'' := None,
           users_file \<mapsto> Json (JObj (map heal_record [(''bob'', bob_record)])))\<rparr>)"
    by (rule load_users_no_fault)
       (simp_all add: bob_only_def disk_def registry_of_def users_file_def bob_record_def)
  then show ?thesis
    by (simp add: bob_record_def bob_only_def disk_def users_file_def users_path_def)
qed

text \<open>
  C2, amended: on every load in which no operation fails (the registry holding account
  records that are JSON objects), each record that lacks a balance-file reference is given
  the reference \<open>user_<username>_balance.json\<close>, a backing file with balance 0 is created
  when that file is missing (a file already there is kept), and the registry file is
  rewritten with the records so completed; consequently, after the load every record of
  the registry has a balance-file reference, and the balance file of every record completed
  by this load is on disk.
\<close>

theorem load_users_heals:
  assumes "faults w = []" and "registry_of w = JObj us"
    and "list_all (\<lambda>kv. is_object (snd kv)) us"
  shows "fst (load_users w) = Inr (JObj (map heal_record us))
     \<and> files (snd (load_users w)) users_file = Some (Json (JObj (map heal_record us)))
     \<and> (\<forall>(k, v) \<in> set (map heal_record us). py_in ''balance_file'' v = Inr True)
     \<and> (\<forall>(k, v) \<in> set us. py_in ''balance_file'' v = Inr False \<longrightarrow>
          field ''balance_file'' (snd (heal_record (k, v))) = Some (balance_name k)
          \<and> files (snd (load_users w)) (users_path (balance_name k)) =
              (case files w (users_path (balance_name k)) of
                 None \<Rightarrow> Some (Json zero_balance) | Some c \<Rightarrow> Some c))"
proof -
  note L = load_users_no_fault [OF assms]
  have objs: "\<And>k v. (k, v) \<in> set us \<Longrightarrow> is_object v"
    using assms(3) by (auto simp: list_all_iff)
  have 1: "fst (load_users w) = Inr (JObj (map heal_record us))" by (simp add: L)
  have 2: "files (snd (load_users w)) users_file = Some (Json (JObj (map heal_record us)))"
    by (simp add: L)
  have "py_in ''balance_file'' (snd (heal_record kv)) = Inr True" if "kv \<in> set us" for kv
    using that objs [of "fst kv" "snd kv"] heal_record_present [of "snd kv" "fst kv"] by simp
  then have 3: "\<forall>(k, v) \<in> set (map heal_record us). py_in ''balance_file'' v = Inr True"
    by (simp add: case_prod_beta)
  have 4: "\<forall>(k, v) \<in> set us. py_in ''balance_file'' v = Inr False \<longrightarrow>
          field ''balance_file'' (snd (heal_record (k, v))) = Some (balance_name k)
          \<and> files (snd (load_users w)) (users_path (balance_name k)) =
              (case files w (users_path (balance_name k)) of
                 None \<Rightarrow> Some (Json zero_balance) | Some c \<Rightarrow> Some c)"
  proof (clarify)
    fix k v assume kv: "(k, v) \<in> set us" and lacking: "py_in ''balance_file'' v = Inr False"
    have a: "field ''balance_file'' (snd (heal_record (k, v))) = Some (balance_name k)"
      by (rule heal_record_field [OF objs [OF kv] lacking])
    have b: "files (snd (load_users w)) (users_path (balance_name k)) =
               heal_files us (files w) (users_path (balance_name k))"
      by (simp add: L users_path_not_registry)
    show "field ''balance_file'' (snd (heal_record (k, v))) = Some (balance_name k)
          \<and> files (snd (load_users w)) (users_path (balance_name k)) =
              (case files w (users_path (balance_name k)) of
                 None \<Rightarrow> Some (Json zero_balance) | Some c \<Rightarrow> Some c)"
      using a b heal_files_created [OF kv lacking, of "files w"] by simp
  qed
  from 1 2 3 4 show ?thesis by blast
qed


theorem load_users_heals_witness:
  "fst (load_users amy_only) =
     Inr (JObj [(''amy'', JObj [(''password_hash'', JStr ''2c62''),
                               (''balance_file'', JStr ''user_amy_balance.json'')])])
   \<and> files (snd (load_users amy_only)) ''data/users.json'' =
     Some (Json (JObj [(''amy'', JObj [(''password_hash'', JStr ''2c62''),
                               (''balance_file'', JStr ''user_amy_balance.json'')])]))
   \<and> files (snd (load_users amy_only)) ''data/users/user_amy_balance.json'' =
     Some (Json (JObj [(''balance'', JNum 0)]))"
  using load_users_heals [of amy_only "[(''amy'', amy_record)]"]
  by (simp add: amy_only_def amy_record_def disk_def registry_of_def users_file_def
        balance_name_def users_path_def zero_balance_def)

section \<open>The balance functions over a complete registry\<close>

lemma field_SomeD:
  "field k v = Some s \<Longrightarrow> \<exists>kvs. v = JObj kvs \<and> map_of kvs k = Some (JStr s)"
  by (cases v) (auto split: option.splits json.splits)

lemma get_user_balance_unregistered:
  assumes "faults w = []" and "registry_of w = JObj us"
    and "list_all (\<lambda>kv. account_ok (snd kv)) us" and "map_of us u = None"
  shows "get_user_balance F u w = (Inr 0, loaded us w)"
  using assms(4)
  by (simp add: get_user_balance_def load_users_healed [OF assms(1-3)] io_bind_def io_lift_def
        io_return_def loaded_def)

lemma get_user_balance_healed:
  assumes "faults w = []" and "registry_of w = JObj us"
    and "list_all (\<lambda>kv. account_ok (snd kv)) us"
    and "map_of us u = Some rec" and "field ''balance_file'' rec = Some ref"
  shows "get_user_balance F u w =
     (case read_balance F (files w (users_path ref)) of
        Inr b \<Rightarrow> (Inr b, loaded us w)
      | Inl e \<Rightarrow> (Inr 0, (loaded us w)\<lparr>log := log w @ [BalanceReadError u]\<rparr>))"
proof -
  from field_SomeD [OF assms(5)] obtain kvs
    where rec: "rec = JObj kvs" and kvs: "map_of kvs ''balance_file'' = Some (JStr ref)"
    by blast
  show ?thesis
    using assms(1,4) rec kvs
    by (auto simp: get_user_balance_def load_users_healed [OF assms(1-3)] io_defs
          os_path_exists_def json_load_def read_balance_def loaded_def users_path_not_registry
          split: option.splits fcontent.splits sum.splits)
qed


lemma loaded_simps:
  "faults (loaded us w) = faults w"
  "log (loaded us w) = log w"
  "registry_of (loaded us w) = JObj us"
  "files (loaded us w) (users_path x) = files w (users_path x)"
  "loaded us (loaded us w) = loaded us w"
  by (simp_all add: loaded_def registry_of_def users_path_not_registry)

lemma get_user_balance_value:
  assumes "faults w = []" and "registry_of w = JObj us"
    and "list_all (\<lambda>kv. account_ok (snd kv)) us"
    and "map_of us u = Some rec" and "field ''balance_file'' rec = Some ref"
  shows "fst (get_user_balance F u w) =
     Inr (case read_balance F (files w (users_path ref)) of Inr b \<Rightarrow> b | Inl e \<Rightarrow> 0)"
  by (simp add: get_user_balance_healed [OF assms] split: sum.splits)

lemma get_user_balance_loaded:
  assumes "faults w = []" and "registry_of w = JObj us"
    and "list_all (\<lambda>kv. account_ok (snd kv)) us"
    and "map_of us u = Some rec" and "field ''balance_file'' rec = Some ref"
  shows "get_user_balance F u (loaded us w) = get_user_balance F u w"
proof -
  have f: "faults (loaded us w) = []" using assms(1) by (simp add: loaded_simps)
  have r: "registry_of (loaded us w) = JObj us" by (simp add: loaded_simps)
  show ?thesis
    by (simp add: get_user_balance_healed [OF f r assms(3-5)]
          get_user_balance_healed [OF assms] loaded_simps split: sum.splits)
qed

lemma update_user_balance_healed:
  assumes "faults w = []" and "registry_of w = JObj us"
    and "list_all (\<lambda>kv. account_ok (snd kv)) us"
    and "map_of us u = Some rec" and "field ''balance_file'' rec = Some ref"
    and "fst (get_user_balance F u w) = Inr b"
  shows "update_user_balance F u d w =
     (Inr True,
      (snd (get_user_balance F u w))\<lparr>files := (files (loaded us w))
         (users_path ref @ ''.tmp'' := None,
          users_path ref \<mapsto> Json (JObj [(''balance'', JNum (b + d))]))\<rparr>)"
proof -
  from field_SomeD [OF assms(5)] obtain kvs
    where rec: "rec = JObj kvs" and kvs: "map_of kvs ''balance_file'' = Some (JStr ref)"
    by blast
  note G = get_user_balance_healed [OF assms(1-5), of F]
  note GL = get_user_balance_loaded [OF assms(1-5), of F]
  obtain g where g: "get_user_balance F u w = (Inr b, g)"
    using assms(6) by (cases "get_user_balance F u w") auto
  from g G have gf: "faults g = []" "files g = files (loaded us w)"
    using assms(1) by (auto simp: loaded_simps loaded_def split: sum.splits)
  have start: "update_user_balance F u d w =
      (let temp_file = users_path ref @ ''.tmp'' in
       io_try
         (io_bind (open_w temp_file) (\<lambda>_.
          io_bind (json_dump temp_file (JObj [(''balance'', JNum (b + d))])) (\<lambda>_.
          io_bind (os_path_exists (users_path ref)) (\<lambda>on_disk.
          io_bind (if on_disk then os_remove (users_path ref) else io_return ()) (\<lambda>_.
          io_bind (os_rename temp_file (users_path ref)) (\<lambda>_.
          io_return True))))))
         (\<lambda>e. io_bind (io_log (BalanceUpdateError u)) (\<lambda>_.
               io_bind (os_path_exists temp_file) (\<lambda>on_disk.
               io_bind (if on_disk then os_remove temp_file else io_return ()) (\<lambda>_.
               io_return False)))) g)"
    using assms(4) rec kvs
    by (simp add: update_user_balance_def load_users_healed [OF assms(1-3)] io_bind_def
          io_lift_def io_return_def io_try_def GL [unfolded loaded_def] g Let_def)
  show ?thesis
    unfolding start using gf
    by (auto simp: g Let_def os_path_exists_def os_remove_def os_rename_def open_w_def
          json_dump_def io_defs fun_upd_twist split: option.splits)
qed

lemma account_ok_field:
  assumes "list_all (\<lambda>kv. account_ok (snd kv)) us" and "map_of us u = Some rec"
  shows "\<exists>ref. field ''balance_file'' rec = Some ref"
proof -
  from assms(2) have "(u, rec) \<in> set us" by (rule map_of_SomeD)
  with assms(1) have "account_ok rec" by (auto simp: list_all_iff)
  then show ?thesis by (auto simp: account_ok_def)
qed

lemma update_user_balance_unregistered:
  "load_users w = (Inr (JObj us'), w1) \<Longrightarrow> map_of us' u = None \<Longrightarrow>
     update_user_balance F u d w = (Inr False, w1)"
  by (simp add: update_user_balance_def io_bind_def io_lift_def io_return_def)

lemma get_user_balance_world:
  assumes "faults w = []" and "registry_of w = JObj us"
    and "list_all (\<lambda>kv. account_ok (snd kv)) us"
    and "map_of us u = Some rec" and "field ''balance_file'' rec = Some ref"
  shows "faults (snd (get_user_balance F u w)) = []"
    and "files (snd (get_user_balance F u w)) = files (loaded us w)"
  using assms(1)
  by (simp_all add: get_user_balance_healed [OF assms] loaded_def split: sum.splits)

lemma update_user_balance_world:
  assumes "faults w = []" and "registry_of w = JObj us"
    and "list_all (\<lambda>kv. account_ok (snd kv)) us"
    and "map_of us u = Some rec" and "field ''balance_file'' rec = Some ref"
    and "fst (get_user_balance F u w) = Inr b"
  shows "fst (update_user_balance F u d w) = Inr True"
    and "faults (snd (update_user_balance F u d w)) = []"
    and "registry_of (snd (update_user_balance F u d w)) = JObj us"
    and "files (snd (update_user_balance F u d w)) (users_path ref) =
           Some (Json (JObj [(''balance'', JNum (b + d))]))"
  by (simp_all add: update_user_balance_healed [OF assms] get_user_balance_world [OF assms(1-5)]
        registry_of_def loaded_def users_path_not_registry
        users_path_not_registry [THEN not_sym])

text \<open>
  C7: with a registry of complete account records and no failing operation,
  \<open>get_user_balance\<close> returns the balance stored in the balance file of a registered
  account, and returns 0 when the account is not in the registry, when the balance file is
  missing, and when the balance file does not parse; in the last case the failure is
  logged. In every case it returns and does not raise.
\<close>

theorem get_user_balance_lenient:
  assumes "faults w = []" and "registry_of w = JObj us"
    and "list_all (\<lambda>kv. account_ok (snd kv)) us"
  shows "(map_of us u = None \<longrightarrow> fst (get_user_balance F u w) = Inr 0)
    \<and> (\<forall>rec ref. map_of us u = Some rec \<and> field ''balance_file'' rec = Some ref \<longrightarrow>
         (\<forall>kvs b. files w (users_path ref) = Some (Json (JObj kvs))
              \<and> map_of kvs ''balance'' = Some (JNum b)
              \<longrightarrow> fst (get_user_balance F u w) = Inr b)
       \<and> (files w (users_path ref) = None \<longrightarrow> fst (get_user_balance F u w) = Inr 0)
       \<and> (files w (users_path ref) = Some Garbled \<longrightarrow>
            fst (get_user_balance F u w) = Inr 0
            \<and> log (snd (get_user_balance F u w)) = log w @ [BalanceReadError u]))
    \<and> (\<exists>b. fst (get_user_balance F u w) = Inr b)"
proof -
  have 1: "map_of us u = None \<longrightarrow> fst (get_user_balance F u w) = Inr 0"
    by (simp add: get_user_balance_unregistered [OF assms])
  have 2: "\<forall>rec ref. map_of us u = Some rec \<and> field ''balance_file'' rec = Some ref \<longrightarrow>
         (\<forall>kvs b. files w (users_path ref) = Some (Json (JObj kvs))
              \<and> map_of kvs ''balance'' = Some (JNum b)
              \<longrightarrow> fst (get_user_balance F u w) = Inr b)
       \<and> (files w (users_path ref) = None \<longrightarrow> fst (get_user_balance F u w) = Inr 0)
       \<and> (files w (users_path ref) = Some Garbled \<longrightarrow>
            fst (get_user_balance F u w) = Inr 0
            \<and> log (snd (get_user_balance F u w)) = log w @ [BalanceReadError u])"
  proof (intro allI impI, elim conjE)
    fix rec ref
    assume u: "map_of us u = Some rec" and ref: "field ''balance_file'' rec = Some ref"
    note G = get_user_balance_healed [OF assms u ref, of F]
    show "(\<forall>kvs b. files w (users_path ref) = Some (Json (JObj kvs))
              \<and> map_of kvs ''balance'' = Some (JNum b)
              \<longrightarrow> fst (get_user_balance F u w) = Inr b)
       \<and> (files w (users_path ref) = None \<longrightarrow> fst (get_user_balance F u w) = Inr 0)
       \<and> (files w (users_path ref) = Some Garbled \<longrightarrow>
            fst (get_user_balance F u w) = Inr 0
            \<and> log (snd (get_user_balance F u w)) = log w @ [BalanceReadError u])"
      by (simp add: G read_balance_def loaded_def)
  qed
  have 3: "\<exists>b. fst (get_user_balance F u w) = Inr b"
  proof (cases "map_of us u")
    case None
    with 1 show ?thesis by simp
  next
    case (Some rec)
    from account_ok_field [OF assms(3) Some] obtain ref
      where "field ''balance_file'' rec = Some ref" by blast
    from get_user_balance_value [OF assms Some this, of F] show ?thesis by simp
  qed
  from 1 2 3 show ?thesis by blast
qed

theorem get_user_balance_lenient_witness:
  "fst (get_user_balance reject_strings ''bob'' bob_funded) = Inr 10
   \<and> fst (get_user_balance reject_strings ''zed'' bob_funded) = Inr 0
   \<and> fst (get_user_balance reject_strings ''bob'' bob_only) = Inr 0
   \<and> fst (get_user_balance reject_strings ''bob'' bob_garbled) = Inr 0
   \<and> log (snd (get_user_balance reject_strings ''bob'' bob_garbled)) = [BalanceReadError ''bob'']"
  using get_user_balance_lenient [of bob_funded "[(''bob'', bob_record)]" "''bob''" reject_strings]
    get_user_balance_lenient [of bob_funded "[(''bob'', bob_record)]" "''zed''" reject_strings]
    get_user_balance_lenient [of bob_only "[(''bob'', bob_record)]" "''bob''" reject_strings]
    get_user_balance_lenient [of bob_garbled "[(''bob'', bob_record)]" "''bob''" reject_strings]
  by (simp add: bob_funded_def bob_only_def bob_garbled_def bob_record_def disk_def
        registry_of_def users_file_def users_path_def account_ok_def)


lemma get_after_update:
  assumes "faults w = []" and "registry_of w = JObj us"
    and "list_all (\<lambda>kv. account_ok (snd kv)) us"
    and "map_of us u = Some rec" and "field ''balance_file'' rec = Some ref"
    and "fst (get_user_balance F u w) = Inr b"
  shows "fst (get_user_balance F u (snd (update_user_balance F u d w))) = Inr (b + d)"
proof -
  note U = update_user_balance_world [OF assms, of d]
  from get_user_balance_value [OF U(2) U(3) assms(3-5), of F]
  show ?thesis by (simp add: U(4) read_balance_def)
qed

text \<open>
  C4, as stated: for an unregistered username the update reports failure without writing
  anything. It fails: the update loads the registry first, and the load completes the
  record of another account, creates that account's balance file and rewrites the
  registry file.
\<close>

theorem update_user_balance_counterexample:
  "fst (update_user_balance reject_strings ''zed'' 5 amy_only) = Inr False
   \<and> files amy_only ''data/users/user_amy_balance.json'' = None
   \<and> files (snd (update_user_balance reject_strings ''zed'' 5 amy_only))
        ''data/users/user_amy_balance.json'' = Some (Json (JObj [(''balance'', JNum 0)]))
   \<and> files (snd (update_user_balance reject_strings ''zed'' 5 amy_only)) ''data/users.json''
        \<noteq> files amy_only ''data/users.json''"
proof -
  have L: "load_users amy_only =
      (Inr (JObj (map heal_record [(''amy'', amy_record)])),
       amy_only\<lparr>files := (heal_files [(''amy'', amy_record)] (files amy_only))
          (users_file @ ''.tmp'' := None,
           users_file \<mapsto> Json (JObj (map heal_record [(''amy'', amy_record)])))\<rparr>)"
    by (rule load_users_no_fault)
       (simp_all add: amy_only_def disk_def registry_of_def users_file_def amy_record_def)
  have "map_of (map heal_record [(''amy'', amy_record)]) ''zed'' = None"
    by (simp add: amy_record_def)
  from update_user_balance_unregistered [OF L this, of reject_strings 5]
  show ?thesis
    by (simp add: amy_record_def amy_only_def disk_def users_file_def users_path_def
          balance_name_def zero_balance_def)
qed

text \<open>
  C4, amended: for a registered username (complete registry, no failing operation) and
  every delta, positive or negative, the update reports success and a subsequent get
  returns the balance got before plus the delta; for a username that the loaded registry
  does not hold, the update reports failure and changes nothing beyond what the registry
  load itself writes.
\<close>

theorem update_user_balance_applies_delta:
  "(faults w = [] \<and> registry_of w = JObj us \<and> list_all (\<lambda>kv. account_ok (snd kv)) us
      \<and> map_of us u \<noteq> None \<longrightarrow>
      (\<exists>b. fst (get_user_balance F u w) = Inr b
         \<and> fst (update_user_balance F u d w) = Inr True
         \<and> fst (get_user_balance F u (snd (update_user_balance F u d w))) = Inr (b + d)))
   \<and> (fst (load_users w) = Inr (JObj us') \<and> map_of us' u = None \<longrightarrow>
        update_user_balance F u d w = (Inr False, snd (load_users w)))"
proof (intro conjI impI)
  assume "faults w = [] \<and> registry_of w = JObj us \<and> list_all (\<lambda>kv. account_ok (snd kv)) us
      \<and> map_of us u \<noteq> None"
  then obtain rec where a: "faults w = []" "registry_of w = JObj us"
      "list_all (\<lambda>kv. account_ok (snd kv)) us" "map_of us u = Some rec"
    by auto
  from account_ok_field [OF a(3) a(4)] obtain ref
    where ref: "field ''balance_file'' rec = Some ref" by blast
  from get_user_balance_value [OF a ref, of F] obtain b
    where b: "fst (get_user_balance F u w) = Inr b" by simp
  from b update_user_balance_world(1) [OF a ref b, of d] get_after_update [OF a ref b, of d]
  show "\<exists>b. fst (get_user_balance F u w) = Inr b
         \<and> fst (update_user_balance F u d w) = Inr True
         \<and> fst (get_user_balance F u (snd (update_user_balance F u d w))) = Inr (b + d)"
    by blast
next
  assume "fst (load_users w) = Inr (JObj us') \<and> map_of us' u = None"
  then have "load_users w = (Inr (JObj us'), snd (load_users w))" "map_of us' u = None"
    by (simp_all add: prod_eq_iff)
  then show "update_user_balance F u d w = (Inr False, snd (load_users w))"
    by (rule update_user_balance_unregistered)
qed

lemma bob_funded_get: "fst (get_user_balance reject_strings ''bob'' bob_funded) = Inr 10"
proof -
  have "fst (get_user_balance reject_strings ''bob'' bob_funded) =
      Inr (case read_balance reject_strings
             (files bob_funded (users_path ''user_bob_balance.json'')) of
           Inr b \<Rightarrow> b | Inl e \<Rightarrow> 0)"
    by (rule get_user_balance_value [where us = "[(''bob'', bob_record)]" and rec = bob_record])
       (simp_all add: bob_funded_def bob_record_def disk_def registry_of_def users_file_def
          account_ok_def)
  then show ?thesis
    by (simp add: bob_funded_def disk_def users_path_def read_balance_def)
qed

lemma bob_funded_load:
  "fst (load_users bob_funded) = Inr (JObj [(''bob'', bob_record)])"
proof -
  have "load_users bob_funded = (Inr (JObj [(''bob'', bob_record)]),
      loaded [(''bob'', bob_record)] bob_funded)"
    unfolding loaded_def
    by (rule load_users_healed)
       (simp_all add: bob_funded_def bob_record_def disk_def registry_of_def users_file_def
          account_ok_def)
  then show ?thesis by simp
qed

theorem update_user_balance_applies_delta_witness:
  "fst (update_user_balance reject_strings ''bob'' 500 bob_funded) = Inr True
   \<and> fst (get_user_balance reject_strings ''bob''
        (snd (update_user_balance reject_strings ''bob'' 500 bob_funded))) = Inr 510
   \<and> fst (update_user_balance reject_strings ''zed'' 500 bob_funded) = Inr False"
  using update_user_balance_applies_delta [of bob_funded "[(''bob'', bob_record)]" "''bob''"
      reject_strings 500 "[(''bob'', bob_record)]"]
    update_user_balance_applies_delta [of bob_funded "[(''bob'', bob_record)]" "''zed''"
      reject_strings 500 "[(''bob'', bob_record)]"]
    bob_funded_get bob_funded_load
  by (simp add: bob_funded_def bob_record_def disk_def registry_of_def users_file_def
        account_ok_def)

text \<open>
  C10: for a registered username with current balance \<open>b\<close> and any delta \<open>d\<close>, with no
  condition on the sign of \<open>b + d\<close>, the update reports success and the balance file
  holds \<open>b + d\<close>; the witness reaches the stored balance \<open>-15\<close> from 10.
\<close>

theorem update_user_balance_unchecked:
  assumes "faults w = []" and "registry_of w = JObj us"
    and "list_all (\<lambda>kv. account_ok (snd kv)) us"
    and "map_of us u = Some rec" and "field ''balance_file'' rec = Some ref"
    and "fst (get_user_balance F u w) = Inr b"
  shows "fst (update_user_balance F u d w) = Inr True
     \<and> files (snd (update_user_balance F u d w)) (users_path ref) =
         Some (Json (JObj [(''balance'', JNum (b + d))]))"
  using update_user_balance_world(1,4) [OF assms, of d] by simp

theorem update_user_balance_unchecked_witness:
  "fst (update_user_balance reject_strings ''bob'' (- 25) bob_funded) = Inr True
   \<and> files (snd (update_user_balance reject_strings ''bob'' (- 25) bob_funded))
        ''data/users/user_bob_balance.json'' = Some (Json (JObj [(''balance'', JNum (- 15))]))
   \<and> (- 15 :: real) < 0"
  using update_user_balance_unchecked [of bob_funded "[(''bob'', bob_record)]" "''bob''"
      bob_record "''user_bob_balance.json''" reject_strings 10 "- 25"] bob_funded_get
  by (simp add: bob_funded_def bob_record_def disk_def registry_of_def users_file_def
        account_ok_def users_path_def)

section \<open>Account creation\<close>

lemma heal_record_fst: "fst (heal_record kv) = fst kv"
  by (cases kv rule: heal_record.cases) auto

lemma map_of_heal_record:
  "map_of (map heal_record us) u =
     (case map_of us u of None \<Rightarrow> None | Some v \<Rightarrow> Some (snd (heal_record (u, v))))"
proof (induction us)
  case Nil
  then show ?case by simp
next
  case (Cons kv us)
  obtain k v where kv: "kv = (k, v)" by (cases kv)
  have "heal_record (k, v) = (k, snd (heal_record (k, v)))"
    using heal_record_fst [of "(k, v)"] by (simp add: prod_eq_iff)
  then have "map_of (heal_record (k, v) # map heal_record us) u =
      (if u = k then Some (snd (heal_record (k, v))) else map_of (map heal_record us) u)"
    by (metis map_of_Cons_code(2))
  with Cons kv show ?case by simp
qed

lemma heal_record_hash:
  "(case snd (heal_record (u, v)) of JObj kvs \<Rightarrow> map_of kvs ''password_hash'' | _ \<Rightarrow> None) =
   (case v of JObj kvs \<Rightarrow> map_of kvs ''password_hash'' | _ \<Rightarrow> None)"
  by (cases v) (auto simp: update_conv')

lemma stored_hash_load:
  assumes "faults w = []" and "registry_of w = JObj us"
    and "list_all (\<lambda>kv. is_object (snd kv)) us"
  shows "stored_hash (snd (load_users w)) u = stored_hash w u"
proof -
  have r: "registry_of (snd (load_users w)) = JObj (map heal_record us)"
    by (simp add: load_users_no_fault [OF assms] registry_of_def)
  show ?thesis
  proof (cases "map_of us u")
    case None
    then show ?thesis by (simp add: stored_hash_def r assms(2) map_of_heal_record)
  next
    case (Some v)
    then show ?thesis
      using heal_record_hash [of u v]
      by (simp add: stored_hash_def r assms(2) map_of_heal_record split: json.splits)
  qed
qed

lemma heal_record_object: "is_object v \<Longrightarrow> is_object (snd (heal_record (k, v)))"
  by (cases v) auto

lemma heal_records_objects:
  "list_all (\<lambda>kv. is_object (snd kv)) us \<Longrightarrow>
     list_all (\<lambda>kv. is_object (snd kv)) (map heal_record us)"
  by (induction us) (auto simp: heal_record_object)

lemma to_csv_no_fault:
  "faults w = [] \<Longrightarrow> to_csv p df w = (Inr (), w\<lparr>files := (files w)(p \<mapsto> Csv df)\<rparr>)"
  by (simp add: to_csv_def open_w_def io_defs)

lemma save_user_no_fault:
  assumes "faults w = []" and "registry_of w = JObj us"
    and "list_all (\<lambda>kv. is_object (snd kv)) us"
  shows "fst (save_user H u p w) = Inr True"
proof -
  obtain w1 where e: "ensure_directory_exists w = (Inr True, w1)" and f1: "faults w1 = []"
      and r1: "registry_of w1 = JObj us"
    using assms(1,2) by (auto simp: ensure_no_fault registry_of_def split: option.splits)
  note L = load_users_no_fault [OF f1 r1 assms(3)]
  show ?thesis
    using f1
    by (simp add: save_user_def e L io_bind_def io_try_def io_lift_def io_return_def
          os_makedirs_def io_step_def to_csv_no_fault safe_json_write_no_fault Let_def)
qed

lemma main_create_account_new:
  assumes "faults w = []" and "registry_of w = JObj us"
    and "list_all (\<lambda>kv. is_object (snd kv)) us" and "map_of us u = None"
    and "u \<noteq> []" and "p \<noteq> []"
  shows "fst (main_create_account H u p p w) = Inr AccountCreated"
proof -
  note L = load_users_no_fault [OF assms(1-3)]
  obtain w1 where w1: "load_users w = (Inr (JObj (map heal_record us)), w1)"
      and f1: "faults w1 = []" and r1: "registry_of w1 = JObj (map heal_record us)"
    using L assms(1) by (simp add: registry_of_def)
  have absent: "map_of (map heal_record us) u = None"
    using assms(4) by (simp add: map_of_heal_record)
  from save_user_no_fault [OF f1 r1 heal_records_objects [OF assms(3)], of H u p]
  obtain w2 where "save_user H u p w1 = (Inr True, w2)"
    by (cases "save_user H u p w1") auto
  then show ?thesis
    using assms(5,6) absent
    by (simp add: main_create_account_def w1 io_bind_def io_lift_def io_return_def)
qed

text \<open>
  C5: creating an account (the "Create Account" branch of \<open>main\<close>) with a username that
  the registry holds, compared as exact strings, fails: the outcome is one of the three
  rejections, it is "Username already exists" when the fields are filled and the passwords
  agree, and the password hash stored for that username is the same afterwards. A username
  the registry does not hold, such as the same name in another letter case, is created.
\<close>

theorem main_create_account_existing:
  assumes "faults w = []" and "registry_of w = JObj us"
    and "list_all (\<lambda>kv. is_object (snd kv)) us" and "map_of us u \<noteq> None"
  shows "(fst (main_create_account H u p c w) = Inr FieldsRequired
          \<or> fst (main_create_account H u p c w) = Inr PasswordsDontMatch
          \<or> fst (main_create_account H u p c w) = Inr UsernameExists)
     \<and> (u \<noteq> [] \<and> p \<noteq> [] \<and> c = p \<longrightarrow>
          fst (main_create_account H u p c w) = Inr UsernameExists)
     \<and> stored_hash (snd (main_create_account H u p c w)) u = stored_hash w u
     \<and> (map_of us u' = None \<and> u' \<noteq> [] \<and> p \<noteq> [] \<longrightarrow>
          fst (main_create_account H u' p p w) = Inr AccountCreated)"
proof -
  have new: "map_of us u' = None \<and> u' \<noteq> [] \<and> p \<noteq> [] \<longrightarrow>
          fst (main_create_account H u' p p w) = Inr AccountCreated"
    using main_create_account_new [OF assms(1-3), of u' p H] by blast
  have present: "map_of (map heal_record us) u \<noteq> None"
    using assms(4) by (simp add: map_of_heal_record split: option.splits)
  have checked: "main_create_account H u p c w = (Inr UsernameExists, snd (load_users w))"
    if "u \<noteq> []" "p \<noteq> []" "c = p"
    using that present
    by (simp add: main_create_account_def load_users_no_fault [OF assms(1-3)] io_bind_def
          io_lift_def io_return_def)
  have early: "main_create_account H u p c w
        = (Inr (if u = [] \<or> p = [] then FieldsRequired else PasswordsDontMatch), w)"
    if "\<not> (u \<noteq> [] \<and> p \<noteq> [] \<and> c = p)"
    using that by (auto simp: main_create_account_def io_return_def)
  show ?thesis
  proof (cases "u \<noteq> [] \<and> p \<noteq> [] \<and> c = p")
    case True
    then show ?thesis
      using checked stored_hash_load [OF assms(1-3), of u] new by simp
  next
    case False
    then show ?thesis using early [OF False] new by auto
  qed
qed

theorem main_create_account_existing_witness:
  "fst (main_create_account toy_hash ''bob'' ''y'' ''y'' bob_only) = Inr UsernameExists
   \<and> stored_hash (snd (main_create_account toy_hash ''bob'' ''y'' ''y'' bob_only)) ''bob''
       = Some (JStr ''5e88'')
   \<and> fst (main_create_account toy_hash ''Bob'' ''y'' ''y'' bob_only) = Inr AccountCreated"
  using main_create_account_existing [where w = bob_only and us = "[(''bob'', bob_record)]"
      and u = "''bob''" and u' = "''Bob''" and p = "''y''" and c = "''y''" and H = toy_hash]
  by (simp add: bob_only_def bob_record_def disk_def registry_of_def users_file_def
        stored_hash_def)

section \<open>The journal load\<close>

lemma add_missing_step:
  "add_missing_columns (col # cols) df = add_missing_columns cols (add_column df col)"
  by (simp add: add_column_def missing_value_def)

lemma nrows_add_column: "nrows (add_column df col) = nrows df"
  by (cases df) (auto simp: nrows_def add_column_def)

lemma map_of_add_column:
  "map_of (add_column df col) c =
     (case map_of df c of
        Some column \<Rightarrow> Some column
      | None \<Rightarrow> if c = col then Some (replicate (nrows df) (missing_value c)) else None)"
  by (simp add: add_column_def map_of_append map_add_def split: option.splits)

lemma keys_add_column:
  "map fst (add_column df col) = map fst df @ (if map_of df col = None then [col] else [])"
  by (simp add: add_column_def)

lemma add_missing_map_of:
  "map_of (add_missing_columns cols df) c =
     (case map_of df c of
        Some column \<Rightarrow> Some column
      | None \<Rightarrow> if c \<in> set cols then Some (replicate (nrows df) (missing_value c)) else None)"
proof (induction cols arbitrary: df)
  case Nil
  then show ?case by (simp split: option.splits)
next
  case (Cons col cols)
  show ?case
    unfolding add_missing_step
    by (simp add: Cons.IH map_of_add_column nrows_add_column split: option.splits)
qed

lemma add_missing_keys:
  "distinct cols \<Longrightarrow>
     map fst (add_missing_columns cols df) =
       map fst df @ filter (\<lambda>c. map_of df c = None) cols"
proof (induction cols arbitrary: df)
  case Nil
  then show ?case by simp
next
  case (Cons col cols)
  then have d: "distinct cols" and n: "col \<notin> set cols" by simp_all
  have same: "filter (\<lambda>c. map_of (add_column df col) c = None) cols
        = filter (\<lambda>c. map_of df c = None) cols"
    using n by (intro filter_cong) (auto simp: map_of_add_column split: option.splits)
  show ?case
    unfolding add_missing_step
    by (simp add: Cons.IH [OF d] same keys_add_column)
qed

lemma read_csv_no_fault:
  "faults w = [] \<Longrightarrow>
     read_csv p w =
       ((case files w p of
           None \<Rightarrow> Inl FileNotFoundError
         | Some (Csv df) \<Rightarrow> Inr df
         | Some _ \<Rightarrow> Inl ParserError), w)"
  by (simp add: read_csv_def io_defs split: option.splits fcontent.splits)

lemma load_user_data_body_healed:
  assumes "faults w = []" and "registry_of w = JObj us"
    and "list_all (\<lambda>kv. account_ok (snd kv)) us"
    and "map_of us u = Some rec" and "field ''data_file'' rec = Some ref"
  shows "fst (load_user_data_body T u w) =
     Inr (case files w (users_path ref) of
            Some (Csv df) \<Rightarrow>
              (case parse_dates T (add_missing_columns required_columns df) of
                 Inr out \<Rightarrow> out | Inl e \<Rightarrow> empty_frame)
          | _ \<Rightarrow> empty_frame)"
proof -
  from field_SomeD [OF assms(5)] obtain kvs
    where rec: "rec = JObj kvs" and kvs: "map_of kvs ''data_file'' = Some (JStr ref)"
    by blast
  have f1: "faults (loaded us w) = []" using assms(1) by (simp add: loaded_simps)
  have start: "load_user_data_body T u w =
      io_try
         (io_bind (read_csv (users_path ref)) (\<lambda>df.
          io_lift (parse_dates T (add_missing_columns required_columns df))))
         (\<lambda>e. io_bind (io_log (LoadDataError u)) (\<lambda>_. io_return empty_frame)) (loaded us w)"
    using assms(4) rec kvs
    by (simp add: load_user_data_body_def load_users_healed [OF assms(1-3), folded loaded_def]
          io_bind_def io_lift_def io_return_def)
  show ?thesis
    unfolding start
    by (simp add: io_try_def io_bind_def io_lift_def io_log_def io_return_def
          read_csv_no_fault [OF f1] loaded_simps
          split: option.splits fcontent.splits sum.splits)
qed

lemma required_column:
  "c \<in> set required_columns \<Longrightarrow>
     map_of (add_missing_columns required_columns df) c = Some (column_or (missing_value c) c df)"
  by (simp add: add_missing_map_of column_or_def split: option.splits)

lemma required_members:
  "''Date'' \<in> set required_columns" "''Description'' \<in> set required_columns"
  "''Category'' \<in> set required_columns" "''Amount'' \<in> set required_columns"
  "distinct required_columns"
  by (simp_all add: required_columns_def)

lemma parse_dates_required:
  "parse_dates T (add_missing_columns required_columns df) =
     (case T (column_or CNone ''Date'' df) of
        None \<Rightarrow> Inl ValueError
      | Some dates \<Rightarrow> Inr (AList.update ''Date'' dates (add_missing_columns required_columns df)))"
  by (simp add: parse_dates_def required_column [OF required_members(1)] missing_value_def)

lemma keys_update_present:
  "map_of al k \<noteq> None \<Longrightarrow> map fst (AList.update k v al) = map fst al"
  by (induction al) auto

lemma normalized_frame:
  shows "map fst (AList.update ''Date'' dates (add_missing_columns required_columns df))
           = map fst df @ filter (\<lambda>c. map_of df c = None) required_columns"
    and "map_of (AList.update ''Date'' dates (add_missing_columns required_columns df)) ''Date''
           = Some dates"
    and "map_of (AList.update ''Date'' dates (add_missing_columns required_columns df))
           ''Description'' = Some (column_or CNone ''Description'' df)"
    and "map_of (AList.update ''Date'' dates (add_missing_columns required_columns df))
           ''Category'' = Some (column_or CNone ''Category'' df)"
    and "map_of (AList.update ''Date'' dates (add_missing_columns required_columns df))
           ''Amount'' = Some (column_or (CNum 0) ''Amount'' df)"
    and "\<forall>c. c \<notin> set required_columns \<longrightarrow>
           map_of (AList.update ''Date'' dates (add_missing_columns required_columns df)) c
             = map_of df c"
proof -
  let ?A = "add_missing_columns required_columns df"
  let ?out = "AList.update ''Date'' dates ?A"
  have date: "map_of ?A ''Date'' \<noteq> None"
    by (simp add: required_column [OF required_members(1)])
  show "map fst ?out = map fst df @ filter (\<lambda>c. map_of df c = None) required_columns"
    by (simp add: keys_update_present [OF date] add_missing_keys [OF required_members(5)])
  show "map_of ?out ''Date'' = Some dates"
    by (simp add: update_conv')
  show "map_of ?out ''Description'' = Some (column_or CNone ''Description'' df)"
    by (simp add: update_conv' required_column [OF required_members(2)] missing_value_def)
  show "map_of ?out ''Category'' = Some (column_or CNone ''Category'' df)"
    by (simp add: update_conv' required_column [OF required_members(3)] missing_value_def)
  show "map_of ?out ''Amount'' = Some (column_or (CNum 0) ''Amount'' df)"
    by (simp add: update_conv' required_column [OF required_members(4)] missing_value_def)
  show "\<forall>c. c \<notin> set required_columns \<longrightarrow> map_of ?out c = map_of df c"
  proof (intro allI impI)
    fix c assume c: "c \<notin> set required_columns"
    then have "c \<noteq> ''Date''" using required_members(1) by auto
    then have "map_of ?out c = map_of ?A c" by (simp add: update_conv')
    also have "\<dots> = map_of df c"
      using c by (simp add: add_missing_map_of split: option.splits)
    finally show "map_of ?out c = map_of df c" .
  qed
qed

lemma load_user_data_body_csv:
  assumes "faults w = []" and "registry_of w = JObj us"
    and "list_all (\<lambda>kv. account_ok (snd kv)) us"
    and "map_of us u = Some rec" and "field ''data_file'' rec = Some ref"
    and "files w (users_path ref) = Some (Csv df)"
    and "T (column_or CNone ''Date'' df) = Some dates"
  shows "fst (load_user_data_body T u w) =
     Inr (AList.update ''Date'' dates (add_missing_columns required_columns df))"
  using assms(6,7)
  by (simp add: load_user_data_body_healed [OF assms(1-5)] parse_dates_required)

lemma load_user_data_body_empty:
  assumes "faults w = []" and "registry_of w = JObj us"
    and "list_all (\<lambda>kv. account_ok (snd kv)) us"
    and "map_of us u = Some rec" and "field ''data_file'' rec = Some ref"
    and "files w (users_path ref) = None \<or> files w (users_path ref) = Some Garbled
         \<or> (\<exists>df. files w (users_path ref) = Some (Csv df)
               \<and> T (column_or CNone ''Date'' df) = None)"
  shows "fst (load_user_data_body T u w) = Inr empty_frame"
  using assms(6)
  by (auto simp: load_user_data_body_healed [OF assms(1-5)] parse_dates_required)

lemma load_user_data_miss:
  "cached_frame cache now u = None \<Longrightarrow> fst (load_user_data_body T u w) = Inr out \<Longrightarrow>
     fst (load_user_data T now u cache w) = (Inr out, cache(u \<mapsto> (out, now)))"
  by (cases "load_user_data_body T u w") (simp add: load_user_data_def)

lemma load_user_data_hit:
  "cached_frame cache now u = Some df \<Longrightarrow>
     load_user_data T now u cache w = ((Inr df, cache), w)"
  by (simp add: load_user_data_def)

lemma bob_journal_facts:
  "faults bob_journal = []" "registry_of bob_journal = JObj [(''bob'', bob_record)]"
  "list_all (\<lambda>kv. account_ok (snd kv)) [(''bob'', bob_record)]"
  "map_of [(''bob'', bob_record)] ''bob'' = Some bob_record"
  "field ''data_file'' bob_record = Some ''user_bob_data.csv''"
  by (simp_all add: bob_journal_def bob_record_def disk_def registry_of_def users_file_def
        account_ok_def)

lemma bob_journal_body:
  "fst (load_user_data_body toy_dates ''bob'' bob_journal) =
     Inr [(''Date'', [CDate ''2024-01-05'']), (''Description'', [CStr ''uber ride'']),
          (''Category'', [CNone]), (''Amount'', [CNum 0])]"
proof -
  have "fst (load_user_data_body toy_dates ''bob'' bob_journal) =
     Inr (case files bob_journal (users_path ''user_bob_data.csv'') of
            Some (Csv df) \<Rightarrow>
              (case parse_dates toy_dates (add_missing_columns required_columns df) of
                 Inr out \<Rightarrow> out | Inl e \<Rightarrow> empty_frame)
          | _ \<Rightarrow> empty_frame)"
    by (rule load_user_data_body_healed [OF bob_journal_facts])
  then show ?thesis
    by (simp add: bob_journal_def disk_def users_path_def parse_dates_def
          required_columns_def nrows_def toy_dates_def)
qed

text \<open>
  C8, as stated: loading the journal returns the stored sequence. It fails within an hour
  of an earlier load for the same username: the function returns the frame it cached, here
  the one row loaded at time 0, while at time 60 the journal file holds the empty table
  (as it does when the account has been closed and the name signed up again).
\<close>

theorem load_user_data_stale_counterexample:
  "fst (fst (load_user_data toy_dates 60 ''bob''
        (snd (fst (load_user_data toy_dates 0 ''bob'' empty_cache bob_journal)))
        bob_journal_later)) =
     Inr [(''Date'', [CDate ''2024-01-05'']), (''Description'', [CStr ''uber ride'']),
          (''Category'', [CNone]), (''Amount'', [CNum 0])]
   \<and> files bob_journal_later ''data/users/user_bob_data.csv'' = Some (Csv empty_frame)
   \<and> field ''data_file'' bob_record = Some ''user_bob_data.csv''
   \<and> registry_of bob_journal_later = JObj [(''bob'', bob_record)]"
proof -
  have miss: "cached_frame empty_cache 0 ''bob'' = None"
    by (simp add: cached_frame_def empty_cache_def)
  note first = load_user_data_miss [OF miss bob_journal_body]
  show ?thesis
    by (simp add: first load_user_data_hit cached_frame_def bob_journal_later_def disk_def
          registry_of_def users_file_def bob_record_def)
qed

text \<open>
  C8, amended: for a registered username whose record names its journal file (complete
  registry, no failing operation), a load that finds no cached frame less than 3600 seconds
  old for that username returns the stored columns, in their order and with their rows in
  the stored order, followed by the required columns the file lacks: a missing Amount
  column is filled with 0, a missing Description or Category column with the empty value
  \<open>None\<close>, and the Date column (stored or missing) is replaced by its conversion to dates;
  when the conversion of the dates fails, when the file is missing and when it does not
  parse, the result is the empty frame of the four columns. The frame returned is cached,
  and a load that finds a cached frame less than 3600 seconds old returns that frame and
  reads no file.
\<close>

theorem load_user_data_normalizes:
  assumes "faults w = []" and "registry_of w = JObj us"
    and "list_all (\<lambda>kv. account_ok (snd kv)) us"
    and "map_of us u = Some rec" and "field ''data_file'' rec = Some ref"
  shows "(cached_frame cache now u = None \<longrightarrow>
        (\<forall>df dates. files w (users_path ref) = Some (Csv df)
            \<and> to_dates (column_or CNone ''Date'' df) = Some dates \<longrightarrow>
          (\<exists>out. fst (load_user_data to_dates now u cache w)
                 = (Inr out, cache(u \<mapsto> (out, now)))
             \<and> map fst out = map fst df @ filter (\<lambda>c. map_of df c = None) required_columns
             \<and> map_of out ''Date'' = Some dates
             \<and> map_of out ''Description'' = Some (column_or CNone ''Description'' df)
             \<and> map_of out ''Category'' = Some (column_or CNone ''Category'' df)
             \<and> map_of out ''Amount'' = Some (column_or (CNum 0) ''Amount'' df)
             \<and> (\<forall>c. c \<notin> set required_columns \<longrightarrow> map_of out c = map_of df c)))
      \<and> (\<forall>df. files w (users_path ref) = Some (Csv df)
            \<and> to_dates (column_or CNone ''Date'' df) = None \<longrightarrow>
          fst (load_user_data to_dates now u cache w)
            = (Inr empty_frame, cache(u \<mapsto> (empty_frame, now))))
      \<and> (files w (users_path ref) = None \<or> files w (users_path ref) = Some Garbled \<longrightarrow>
          fst (load_user_data to_dates now u cache w)
            = (Inr empty_frame, cache(u \<mapsto> (empty_frame, now)))))
     \<and> (\<forall>df. cached_frame cache now u = Some df \<longrightarrow>
          load_user_data to_dates now u cache w = ((Inr df, cache), w))"
proof (intro impI conjI allI)
  fix df dates
  assume m: "cached_frame cache now u = None"
    and a: "files w (users_path ref) = Some (Csv df)
          \<and> to_dates (column_or CNone ''Date'' df) = Some dates"
  let ?out = "AList.update ''Date'' dates (add_missing_columns required_columns df)"
  from a have "fst (load_user_data_body to_dates u w) = Inr ?out"
    by (intro load_user_data_body_csv [OF assms]) simp_all
  note stored = load_user_data_miss [OF m this]
  show "\<exists>out. fst (load_user_data to_dates now u cache w)
               = (Inr out, cache(u \<mapsto> (out, now)))
           \<and> map fst out = map fst df @ filter (\<lambda>c. map_of df c = None) required_columns
           \<and> map_of out ''Date'' = Some dates
           \<and> map_of out ''Description'' = Some (column_or CNone ''Description'' df)
           \<and> map_of out ''Category'' = Some (column_or CNone ''Category'' df)
           \<and> map_of out ''Amount'' = Some (column_or (CNum 0) ''Amount'' df)
           \<and> (\<forall>c. c \<notin> set required_columns \<longrightarrow> map_of out c = map_of df c)"
    by (rule exI [of _ ?out]) (intro conjI stored normalized_frame)
next
  fix df
  assume m: "cached_frame cache now u = None"
    and a: "files w (users_path ref) = Some (Csv df)
          \<and> to_dates (column_or CNone ''Date'' df) = None"
  from a have "fst (load_user_data_body to_dates u w) = Inr empty_frame"
    by (intro load_user_data_body_empty [OF assms]) blast
  from load_user_data_miss [OF m this]
  show "fst (load_user_data to_dates now u cache w)
          = (Inr empty_frame, cache(u \<mapsto> (empty_frame, now)))" .
next
  assume m: "cached_frame cache now u = None"
    and a: "files w (users_path ref) = None \<or> files w (users_path ref) = Some Garbled"
  from a have "fst (load_user_data_body to_dates u w) = Inr empty_frame"
    by (intro load_user_data_body_empty [OF assms]) blast
  from load_user_data_miss [OF m this]
  show "fst (load_user_data to_dates now u cache w)
          = (Inr empty_frame, cache(u \<mapsto> (empty_frame, now)))" .
next
  fix df
  assume "cached_frame cache now u = Some df"
  then show "load_user_data to_dates now u cache w = ((Inr df, cache), w)"
    by (rule load_user_data_hit)
qed

theorem load_user_data_normalizes_witness:
  "(\<exists>out. fst (load_user_data toy_dates 0 ''bob'' empty_cache bob_journal)
            = (Inr out, empty_cache(''bob'' \<mapsto> (out, 0)))
     \<and> map fst out = [''Date'', ''Description'', ''Category'', ''Amount'']
     \<and> map_of out ''Date'' = Some [CDate ''2024-01-05'']
     \<and> map_of out ''Description'' = Some [CStr ''uber ride'']
     \<and> map_of out ''Category'' = Some [CNone]
     \<and> map_of out ''Amount'' = Some [CNum 0])
   \<and> load_user_data toy_dates 10 ''bob'' (empty_cache(''bob'' \<mapsto> (empty_frame, 0))) bob_journal
       = ((Inr empty_frame, empty_cache(''bob'' \<mapsto> (empty_frame, 0))), bob_journal)"
proof -
  note T = load_user_data_normalizes [OF bob_journal_facts, of _ _ toy_dates]
  from T [of empty_cache 0]
  have "\<exists>out. fst (load_user_data toy_dates 0 ''bob'' empty_cache bob_journal)
            = (Inr out, empty_cache(''bob'' \<mapsto> (out, 0)))
     \<and> map fst out = [''Date'', ''Description'', ''Category'', ''Amount'']
     \<and> map_of out ''Date'' = Some [CDate ''2024-01-05'']
     \<and> map_of out ''Description'' = Some [CStr ''uber ride'']
     \<and> map_of out ''Category'' = Some [CNone]
     \<and> map_of out ''Amount'' = Some [CNum 0]
     \<and> (\<forall>c. c \<notin> set required_columns \<longrightarrow> map_of out c = None)"
    by (simp add: bob_journal_def disk_def users_path_def toy_dates_def column_or_def
          nrows_def required_columns_def cached_frame_def empty_cache_def)
  then have first: "\<exists>out. fst (load_user_data toy_dates 0 ''bob'' empty_cache bob_journal)
            = (Inr out, empty_cache(''bob'' \<mapsto> (out, 0)))
     \<and> map fst out = [''Date'', ''Description'', ''Category'', ''Amount'']
     \<and> map_of out ''Date'' = Some [CDate ''2024-01-05'']
     \<and> map_of out ''Description'' = Some [CStr ''uber ride'']
     \<and> map_of out ''Category'' = Some [CNone]
     \<and> map_of out ''Amount'' = Some [CNum 0]"
    by (elim exE conjE, intro exI conjI)
  from T [of "empty_cache(''bob'' \<mapsto> (empty_frame, 0))" 10]
  have second: "load_user_data toy_dates 10 ''bob'' (empty_cache(''bob'' \<mapsto> (empty_frame, 0)))
       bob_journal = ((Inr empty_frame, empty_cache(''bob'' \<mapsto> (empty_frame, 0))), bob_journal)"
    by (simp add: cached_frame_def)
  from first second show ?thesis by (rule conjI)
qed

end
